theory Spec2Isabelle
  imports Main "HOL-Library.Word" "HOL-Library.Signed_Division"
begin

unbundle bit_operations_syntax

section \<open>MPEG-1/2 program stream multiplexer and demultiplexer (libav/mpeg.c)\<close>

subsection \<open>The PTS ticker\<close>

text \<open>
  Modelled from the spec: \<^verbatim>\<open>tick.h\<close> (the type \<^verbatim>\<open>Ticker\<close> and the functions
  \<^verbatim>\<open>ticker_init\<close> and \<^verbatim>\<open>ticker_tick\<close>) is included by \<^verbatim>\<open>mpeg.c\<close> but is not among the
  sources. The specification describes the ticker as a triple \<open>(num, den, err)\<close>;
  \<open>tick(n)\<close> returns the floor of \<open>(n * num + err) / den\<close> and stores the remainder
  \<open>(n * num + err) mod den\<close> in \<open>err\<close>. \<open>init(sample_rate, unit)\<close> makes the ticker add
  \<open>n * unit / sample_rate\<close> per call, starting without remainder.
\<close>

record Ticker =
  num :: int
  den :: int
  err :: int

definition ticker_init :: "int \<Rightarrow> int \<Rightarrow> Ticker" where
  "ticker_init sample_rate unit = \<lparr>num = unit, den = sample_rate, err = 0\<rparr>"

definition ticker_tick :: "Ticker \<Rightarrow> int \<Rightarrow> int \<times> Ticker" where
  "ticker_tick t n =
     ((n * num t + err t) div den t, t\<lparr>err := (n * num t + err t) mod den t\<rparr>)"

text \<open>
  A run of calls \<open>tick(n1), ..., tick(nk)\<close> on one ticker, adding up the returned
  increments the way \<^verbatim>\<open>mpeg_mux_write_packet\<close> adds each of them to \<^verbatim>\<open>stream->pts\<close>
  (\<^verbatim>\<open>stream->pts += ticker_tick(&stream->pts_ticker, 1)\<close>).
\<close>

fun ticker_run :: "Ticker \<Rightarrow> int \<Rightarrow> int list \<Rightarrow> int \<times> Ticker" where
  "ticker_run t pts [] = (pts, t)"
| "ticker_run t pts (n # ns) =
     (case ticker_tick t n of (d, t') \<Rightarrow> ticker_run t' (pts + d) ns)"

subsection \<open>Bytes, the bit writer and the byte sink\<close>

type_synonym byte = "8 word"

text \<open>
  Modelled from the spec: the bit writer (\<^verbatim>\<open>PutBitContext\<close>, \<^verbatim>\<open>init_put_bits\<close>,
  \<^verbatim>\<open>put_bits\<close>, \<^verbatim>\<open>flush_put_bits\<close>, \<^verbatim>\<open>pbBufPtr\<close>) is declared outside \<^verbatim>\<open>mpeg.c\<close> and is not
  among the sources. The specification gives its contract: \<open>put_bits(n_bits, value)\<close>
  appends a field of \<open>n_bits\<close> bits, most significant bit first. The context is modelled
  as the sequence of bits written so far; a field holds the \<open>n\<close> low-order bits of the
  value; flushing pads the last byte with zero bits and yields the bytes of the buffer,
  whose number is the distance \<^verbatim>\<open>pbBufPtr(&pb) - pb.buf\<close>.
\<close>

type_synonym PutBitContext = "bool list"

definition init_put_bits :: PutBitContext where
  "init_put_bits = []"

definition put_bits :: "PutBitContext \<Rightarrow> nat \<Rightarrow> int \<Rightarrow> PutBitContext" where
  "put_bits pb n v = pb @ map (bit v) (rev [0..<n])"

fun byte_of_bits :: "bool list \<Rightarrow> byte" where
  "byte_of_bits [b7, b6, b5, b4, b3, b2, b1, b0] =
     push_bit 7 (of_bool b7) OR push_bit 6 (of_bool b6) OR push_bit 5 (of_bool b5) OR
     push_bit 4 (of_bool b4) OR push_bit 3 (of_bool b3) OR push_bit 2 (of_bool b2) OR
     push_bit 1 (of_bool b1) OR of_bool b0"
| "byte_of_bits bs = 0"

fun flush_put_bits :: "PutBitContext \<Rightarrow> byte list" where
  "flush_put_bits (b7 # b6 # b5 # b4 # b3 # b2 # b1 # b0 # bs) =
     byte_of_bits [b7, b6, b5, b4, b3, b2, b1, b0] # flush_put_bits bs"
| "flush_put_bits [] = []"
| "flush_put_bits bs = [byte_of_bits (take 8 (bs @ replicate 7 False))]"

text \<open>Reading a byte buffer back as a bit string, most significant bit first.\<close>

definition bits_of_byte :: "byte \<Rightarrow> bool list" where
  "bits_of_byte b = map (bit b) [7, 6, 5, 4, 3, 2, 1, 0]"

definition bits_of_bytes :: "byte list \<Rightarrow> bool list" where
  "bits_of_bytes bs = concat (map bits_of_byte bs)"

text \<open>
  Modelled from the spec: the byte sink (\<^verbatim>\<open>ByteIOContext\<close> with \<^verbatim>\<open>put_byte\<close>, \<^verbatim>\<open>put_be16\<close>,
  \<^verbatim>\<open>put_be32\<close>, \<^verbatim>\<open>put_buffer\<close>, \<^verbatim>\<open>put_flush_packet\<close>) is not among the sources. The sink is
  modelled as the sequence of calls made on it, each with its argument; \<open>sink_bytes\<close>
  gives the bytes these calls write: \<^verbatim>\<open>put_byte\<close> writes the low 8 bits of its argument,
  \<^verbatim>\<open>put_be16\<close> and \<^verbatim>\<open>put_be32\<close> write 2 and 4 bytes in big-endian order, \<^verbatim>\<open>put_buffer\<close>
  writes the given bytes and \<^verbatim>\<open>put_flush_packet\<close> commits what was written as one unit.
\<close>

datatype put_op =
    Put_byte int
  | Put_be16 int
  | Put_be32 int
  | Put_buffer "byte list"
  | Put_flush_packet

fun op_bytes :: "put_op \<Rightarrow> byte list" where
  "op_bytes (Put_byte b) = [word_of_int b]"
| "op_bytes (Put_be16 v) = [word_of_int (drop_bit 8 v), word_of_int v]"
| "op_bytes (Put_be32 v) =
     [word_of_int (drop_bit 24 v), word_of_int (drop_bit 16 v),
      word_of_int (drop_bit 8 v), word_of_int v]"
| "op_bytes (Put_buffer bs) = bs"
| "op_bytes Put_flush_packet = []"

definition sink_bytes :: "put_op list \<Rightarrow> byte list" where
  "sink_bytes ops = concat (map op_bytes ops)"

subsection \<open>Multiplexer state\<close>

text \<open>
  \<^verbatim>\<open>StreamInfo\<close> and \<^verbatim>\<open>MpegMuxContext\<close> as declared in \<^verbatim>\<open>mpeg.c\<close>. \<^verbatim>\<open>id\<close> is a \<^verbatim>\<open>UINT8\<close>. The two
  packet counters are C \<^verbatim>\<open>int\<close>s that the code increments at every flush without a
  bound: they are 32-bit words, read as signed values (\<open>sint\<close>), so that \<^verbatim>\<open>++\<close> wraps
  from \<open>2147483647\<close> to \<open>-2147483648\<close> as the compiled code does. The other \<^verbatim>\<open>int\<close> and
  \<^verbatim>\<open>INT64\<close> fields are integers. Two fields are renamed because their names are taken:
  \<^verbatim>\<open>StreamInfo.id\<close> is \<open>stream_id\<close> and \<^verbatim>\<open>StreamInfo.packet_number\<close> is
  \<open>stream_packet_number\<close>.
\<close>

record StreamInfo =
  buffer :: "byte list"
  buffer_ptr :: int
  stream_id :: byte
  max_buffer_size :: int
  stream_packet_number :: "32 word"
  pts :: int
  pts_ticker :: Ticker
  start_pts :: int

record MpegMuxContext =
  packet_size :: int
  packet_data_max_size :: int
  packet_number :: "32 word"
  pack_header_freq :: int
  system_header_freq :: int
  mux_rate :: int
  audio_bound :: int
  video_bound :: int
  is_mpeg2 :: int
  is_vcd :: int

text \<open>
  The part of \<^verbatim>\<open>AVFormatContext\<close> the multiplexer uses: its private data, the private data
  of each stream (\<^verbatim>\<open>ctx->streams[i]->priv_data\<close>, with \<^verbatim>\<open>nb_streams\<close> the length of the
  list) and the byte sink \<^verbatim>\<open>ctx->pb\<close>.
\<close>

record AVFormatContext =
  priv_data :: MpegMuxContext
  streams :: "StreamInfo list"
  pb :: "put_op list"

definition nb_streams :: "AVFormatContext \<Rightarrow> int" where
  "nb_streams ctx = int (length (streams ctx))"

subsection \<open>Pack header and system header\<close>

definition put_pack_header :: "AVFormatContext \<Rightarrow> int \<Rightarrow> byte list \<times> int" where
  "put_pack_header ctx timestamp =
     (let s = priv_data ctx;
          pb = init_put_bits;
          pb = put_bits pb 32 0x000001ba;
          pb = put_bits pb 4 0x2;
          pb = put_bits pb 3 (drop_bit 30 timestamp AND 0x07);
          pb = put_bits pb 1 1;
          pb = put_bits pb 15 (drop_bit 15 timestamp AND 0x7fff);
          pb = put_bits pb 1 1;
          pb = put_bits pb 15 (timestamp AND 0x7fff);
          pb = put_bits pb 1 1;
          pb = put_bits pb 1 1;
          pb = put_bits pb 22 (mux_rate s);
          pb = put_bits pb 1 1;
          buf = flush_put_bits pb
      in (buf, int (length buf)))"

text \<open>
  The loop over the streams in \<^verbatim>\<open>put_system_header\<close> (\<open>bits\<close> is its \<^verbatim>\<open>pb\<close>); the flag is
  \<^verbatim>\<open>private_stream_coded\<close>. C's \<^verbatim>\<open>/\<close> truncates towards zero (\<open>sdiv\<close>).
\<close>

fun put_stream_entries :: "PutBitContext \<Rightarrow> bool \<Rightarrow> StreamInfo list \<Rightarrow> PutBitContext" where
  "put_stream_entries bits private_stream_coded [] = bits"
| "put_stream_entries bits private_stream_coded (stream # rest) =
     (let id = uint (stream_id stream) in
      if id < 0xc0 \<and> private_stream_coded then
        put_stream_entries bits private_stream_coded rest
      else
        let coded = (if id < 0xc0 then True else private_stream_coded);
            id = (if id < 0xc0 then 0xbd else id);
            bits = put_bits bits 8 id;
            bits = put_bits bits 2 3;
            bits = (if id < 0xe0
                  then put_bits (put_bits bits 1 0) 13 (max_buffer_size stream sdiv 128)
                  else put_bits (put_bits bits 1 1) 13 (max_buffer_size stream sdiv 1024))
        in put_stream_entries bits coded rest)"

definition put_system_header :: "AVFormatContext \<Rightarrow> byte list \<times> int" where
  "put_system_header ctx =
     (let s = priv_data ctx;
          pb = init_put_bits;
          pb = put_bits pb 32 0x000001bb;
          pb = put_bits pb 16 0;
          pb = put_bits pb 1 1;
          rate_bound = mux_rate s;
          pb = put_bits pb 22 rate_bound;
          pb = put_bits pb 1 1;
          pb = put_bits pb 6 (audio_bound s);
          pb = put_bits pb 1 1;
          pb = put_bits pb 1 1;
          pb = put_bits pb 1 0;
          pb = put_bits pb 1 0;
          pb = put_bits pb 1 1;
          pb = put_bits pb 5 (video_bound s);
          pb = put_bits pb 8 0xff;
          pb = put_stream_entries pb False (streams ctx);
          buf = flush_put_bits pb;
          size = int (length buf);
          buf = buf[4 := word_of_int (drop_bit 8 (size - 6))];
          buf = buf[5 := word_of_int ((size - 6) AND 0xff)]
      in (buf, size))"

text \<open>
  The layout of the MPEG-1 pack header in the words of the specification, as a bit
  string read most significant bit first: the start code \<open>0x000001BA\<close>, the four bits
  \<open>0010\<close>, the timestamp bits 32..30, 29..15 and 14..0, each group followed by a marker
  bit, one more marker bit, the 22 bits of the mux rate and a final marker bit.
\<close>

definition pack_header_bits :: "int \<Rightarrow> int \<Rightarrow> bool list" where
  "pack_header_bits timestamp rate =
     bits_of_bytes [0x00, 0x00, 0x01, 0xba] @ [False, False, True, False] @
     map (bit timestamp) (rev [30..<33]) @ [True] @
     map (bit timestamp) (rev [15..<30]) @ [True] @
     map (bit timestamp) (rev [0..<15]) @ [True] @
     [True] @ map (bit rate) (rev [0..<22]) @ [True]"

subsection \<open>Example sessions\<close>

text \<open>
  The state \<^verbatim>\<open>mpeg_mux_init\<close> leaves for the Video-CD profile with one MPEG audio stream
  of 224000 bit/s, 44100 Hz and 1152 samples per frame: packets of 2324 bytes, a pack
  header before every packet, a system header every 40 packets, and a mux rate of
  \<open>(2000 + 224000 + 399) / 400 = 565\<close>.
\<close>

definition vcd_audio_stream :: StreamInfo where
  "vcd_audio_stream =
     \<lparr>buffer = replicate 4096 0, buffer_ptr = 0, stream_id = 0xc0, max_buffer_size = 4 * 1024,
      stream_packet_number = 0, pts = 0, pts_ticker = ticker_init 44100 (90000 * 1152),
      start_pts = -1\<rparr>"

definition vcd_session :: AVFormatContext where
  "vcd_session =
     \<lparr>priv_data =
        \<lparr>packet_size = 2324, packet_data_max_size = 2317, packet_number = 0,
         pack_header_freq = 1, system_header_freq = 40, mux_rate = 565,
         audio_bound = 1, video_bound = 0, is_mpeg2 = 0, is_vcd = 1\<rparr>,
      streams = [vcd_audio_stream], pb = []\<rparr>"

text \<open>
  The per-stream part of the system header in the words of the specification. A stream
  is entered under its own id, or under \<open>0xBD\<close> (private stream 1) when its id is below
  \<open>0xC0\<close>; all streams with an id below \<open>0xC0\<close> share the one entry that the first of
  them makes. An entry is the 8-bit id, the bits \<open>11\<close>, then a \<open>0\<close> bit and 13 bits of
  the buffer bound divided by 128 for an id below \<open>0xE0\<close>, else a \<open>1\<close> bit and 13 bits
  of the bound divided by 1024.
\<close>

definition entry_id :: "StreamInfo \<Rightarrow> int" where
  "entry_id st = (if uint (stream_id st) < 0xc0 then 0xbd else uint (stream_id st))"

definition stream_entry_bits :: "int \<Rightarrow> int \<Rightarrow> bool list" where
  "stream_entry_bits sid bound =
     map (bit sid) (rev [0..<8]) @ [True, True] @
     (if sid < 0xe0 then False # map (bit (bound sdiv 128)) (rev [0..<13])
      else True # map (bit (bound sdiv 1024)) (rev [0..<13]))"

fun system_header_entries :: "StreamInfo list \<Rightarrow> (int \<times> int) list" where
  "system_header_entries [] = []"
| "system_header_entries (st # rest) =
     (entry_id st, max_buffer_size st) #
     system_header_entries
       (if uint (stream_id st) < 0xc0 then filter (\<lambda>s. \<not> uint (stream_id s) < 0xc0) rest else rest)"

text \<open>The fixed first 96 bits of the system header, with the length field still zero.\<close>

definition system_header_bits :: "MpegMuxContext \<Rightarrow> bool list" where
  "system_header_bits s =
     bits_of_bytes [0x00, 0x00, 0x01, 0xbb] @ replicate 16 False @ [True] @
     map (bit (mux_rate s)) (rev [0..<22]) @ [True] @
     map (bit (audio_bound s)) (rev [0..<6]) @ [True, True, False, False, True] @
     map (bit (video_bound s)) (rev [0..<5]) @ replicate 8 True"

definition system_header_stream_bits :: "StreamInfo list \<Rightarrow> bool list" where
  "system_header_stream_bits ss =
     concat (map (\<lambda>(sid, bound). stream_entry_bits sid bound) (system_header_entries ss))"

text \<open>
  An MPEG-2 (VOB) session with one video stream and two AC-3 streams, as
  \<^verbatim>\<open>mpeg_mux_init\<close> numbers them (\<open>0xE0\<close>, \<open>0x80\<close>, \<open>0x81\<close>), with bit rates of 1150000 and
  twice 192000 bit/s: a pack header before every packet, a system header every 5.
\<close>

definition vob_session :: AVFormatContext where
  "vob_session =
     \<lparr>priv_data =
        \<lparr>packet_size = 2048, packet_data_max_size = 2041, packet_number = 0,
         pack_header_freq = 1, system_header_freq = 5, mux_rate = 3840,
         audio_bound = 2, video_bound = 1, is_mpeg2 = 1, is_vcd = 0\<rparr>,
      streams =
        [\<lparr>buffer = replicate 4096 0, buffer_ptr = 0, stream_id = 0xe0,
          max_buffer_size = 46 * 1024, stream_packet_number = 0, pts = 0,
          pts_ticker = ticker_init 300000 (90000 * 10000), start_pts = -1\<rparr>,
         \<lparr>buffer = replicate 4096 0, buffer_ptr = 0, stream_id = 0x80,
          max_buffer_size = 4 * 1024, stream_packet_number = 0, pts = 0,
          pts_ticker = ticker_init 48000 (90000 * 1536), start_pts = -1\<rparr>,
         \<lparr>buffer = replicate 4096 0, buffer_ptr = 0, stream_id = 0x81,
          max_buffer_size = 4 * 1024, stream_packet_number = 0, pts = 0,
          pts_ticker = ticker_init 48000 (90000 * 1536), start_pts = -1\<rparr>],
      pb = []\<rparr>"

subsection \<open>Flushing one PES packet\<close>

text \<open>
  The header block of \<^verbatim>\<open>flush_packet\<close> (the local \<^verbatim>\<open>buffer\<close> filled through \<^verbatim>\<open>buf_ptr\<close>):
  a pack header when the session's packet number is a multiple of \<^verbatim>\<open>pack_header_freq\<close>,
  followed by a system header when it is also a multiple of \<^verbatim>\<open>system_header_freq\<close>.
  C's \<^verbatim>\<open>%\<close> is the remainder of the truncating division (\<open>smod\<close>), here of the signed
  value of the 32-bit packet number, and traps on a zero divisor: the result is \<open>None\<close>
  there.
\<close>

definition flush_headers :: "AVFormatContext \<Rightarrow> int \<Rightarrow> byte list option" where
  "flush_headers ctx timestamp =
     (let s = priv_data ctx in
      if pack_header_freq s = 0 then None
      else if sint (packet_number s) smod pack_header_freq s = 0 then
        (case put_pack_header ctx timestamp of (buf1, size1) \<Rightarrow>
           if system_header_freq s = 0 then None
           else if sint (packet_number s) smod system_header_freq s = 0 then
             (case put_system_header ctx of (buf2, size2) \<Rightarrow>
                Some (take (nat size1) buf1 @ take (nat size2) buf2))
           else Some (take (nat size1) buf1))
      else Some [])"

text \<open>The five bytes of the PTS field, as \<^verbatim>\<open>flush_packet\<close> writes them.\<close>

definition put_pts :: "int \<Rightarrow> put_op list" where
  "put_pts timestamp =
     [Put_byte (push_bit 4 0x02 OR push_bit 1 (drop_bit 30 timestamp AND 0x07) OR 1),
      Put_be16 (take_bit 16 (push_bit 1 (drop_bit 15 timestamp AND 0x7fff) OR 1)),
      Put_be16 (take_bit 16 (push_bit 1 (timestamp AND 0x7fff) OR 1))]"

text \<open>
  \<^verbatim>\<open>flush_packet\<close>. The result is \<open>None\<close> where the C code has no defined behaviour: a
  stream index outside \<^verbatim>\<open>ctx->streams\<close>, or a trap in the header block.
  \<^verbatim>\<open>put_buffer\<close> writes nothing for a size that is not positive; \<^verbatim>\<open>memmove\<close> copies the
  last \<^verbatim>\<open>len\<close> pending bytes to the start of the stream's buffer.
\<close>

definition flush_packet :: "AVFormatContext \<Rightarrow> nat \<Rightarrow> int \<Rightarrow> AVFormatContext option" where
  "flush_packet ctx stream_index last_pkt =
     (if length (streams ctx) \<le> stream_index then None
      else
        let s = priv_data ctx;
            stream = streams ctx ! stream_index;
            last = (if last_pkt \<noteq> 0 then 4 else 0);
            id = uint (stream_id stream);
            timestamp = start_pts stream
        in case flush_headers ctx timestamp of
             None \<Rightarrow> None
           | Some hbuf \<Rightarrow>
               let size = int (length hbuf);
                   out = pb ctx @ [Put_buffer (take (nat size) hbuf)];
                   header_len = (if is_mpeg2 s \<noteq> 0 then 8 else 5);
                   payload_size = packet_size s - (size + 6 + header_len + last);
                   startcode = (if id < 0xc0 then 0x1bd else 0x100 + id);
                   payload_size = (if id < 0xc0 then payload_size - 4 else payload_size);
                   stuffing_size = payload_size - buffer_ptr stream;
                   stuffing_size = (if stuffing_size < 0 then 0 else stuffing_size);
                   out = out @ [Put_be32 startcode];
                   out = out @ [Put_be16 (payload_size + header_len)];
                   out = out @ replicate (nat stuffing_size) (Put_byte 0xff);
                   out = (if is_mpeg2 s \<noteq> 0
                          then out @ [Put_byte 0x80, Put_byte 0x80, Put_byte 0x05] else out);
                   out = out @ put_pts timestamp;
                   out = (if startcode = 0x1bd
                          then out @ [Put_byte id] @
                            (if 0x80 \<le> id \<and> id \<le> 0xbf
                             then [Put_byte 1, Put_byte 0, Put_byte 2] else [])
                          else out);
                   out = (if last_pkt \<noteq> 0 then out @ [Put_be32 0x000001b9] else out);
                   out = out @ [Put_buffer (take (nat (payload_size - stuffing_size))
                                  (buffer stream))];
                   out = out @ [Put_flush_packet];
                   len = buffer_ptr stream - payload_size;
                   len = (if len < 0 then 0 else len);
                   stream = stream
                     \<lparr>buffer := take (nat len) (drop (nat (buffer_ptr stream - len)) (buffer stream))
                                 @ drop (nat len) (buffer stream),
                      buffer_ptr := len,
                      stream_packet_number := stream_packet_number stream + 1,
                      start_pts := -1\<rparr>;
                   s = s\<lparr>packet_number := packet_number s + 1\<rparr>
               in Some (ctx\<lparr>priv_data := s,
                             streams := (streams ctx)[stream_index := stream],
                             pb := out\<rparr>))"

subsection \<open>Ending the stream\<close>

text \<open>
  The loop of \<^verbatim>\<open>mpeg_mux_end\<close> over the stream indices \<open>0, ..., nb_streams - 1\<close>, and
  \<^verbatim>\<open>mpeg_mux_end\<close> itself, which returns 0.
\<close>

fun mpeg_mux_end_loop :: "AVFormatContext \<Rightarrow> nat list \<Rightarrow> AVFormatContext option" where
  "mpeg_mux_end_loop ctx [] = Some ctx"
| "mpeg_mux_end_loop ctx (i # rest) =
     (if buffer_ptr (streams ctx ! i) > 0 then
        (case (if int i = nb_streams ctx - 1 then flush_packet ctx i 1
               else flush_packet ctx i 0) of
           None \<Rightarrow> None
         | Some ctx' \<Rightarrow> mpeg_mux_end_loop ctx' rest)
      else mpeg_mux_end_loop ctx rest)"

definition mpeg_mux_end :: "AVFormatContext \<Rightarrow> (int \<times> AVFormatContext) option" where
  "mpeg_mux_end ctx =
     (case mpeg_mux_end_loop ctx [0..<length (streams ctx)] of
        None \<Rightarrow> None
      | Some ctx' \<Rightarrow> Some (0, ctx'))"

subsection \<open>Reading the sink\<close>

text \<open>
  The units committed to the sink: the calls between one \<^verbatim>\<open>put_flush_packet\<close> and the
  next. \<open>has_pack_header\<close> and \<open>has_system_header\<close> recognise the start codes
  \<open>0x000001BA\<close> at the start of a unit's first buffer and \<open>0x000001BB\<close> after the 12 bytes
  of a pack header.
\<close>

fun packets_from :: "put_op list \<Rightarrow> put_op list \<Rightarrow> put_op list list" where
  "packets_from cur [] = []"
| "packets_from cur (Put_flush_packet # ops) = cur # packets_from [] ops"
| "packets_from cur (x # ops) = packets_from (cur @ [x]) ops"

definition sink_packets :: "put_op list \<Rightarrow> put_op list list" where
  "sink_packets ops = packets_from [] ops"

fun has_pack_header :: "put_op list \<Rightarrow> bool" where
  "has_pack_header (Put_buffer bs # ops) = (take 4 bs = [0x00, 0x00, 0x01, 0xba])"
| "has_pack_header ops = False"

fun has_system_header :: "put_op list \<Rightarrow> bool" where
  "has_system_header (Put_buffer bs # ops) = (take 4 (drop 12 bs) = [0x00, 0x00, 0x01, 0xbb])"
| "has_system_header ops = False"

text \<open>
  The payload size of a PES packet in the words of the specification: the packet size
  minus the bytes of the headers just emitted, the 6 bytes of start code and length, the
  PES header length (8 for MPEG-2, else 5) and the 4 bytes of the end code in a last
  packet, and minus 4 more for a stream id below \<open>0xC0\<close>.
\<close>

definition pes_header_len :: "MpegMuxContext \<Rightarrow> int" where
  "pes_header_len s = (if is_mpeg2 s \<noteq> 0 then 8 else 5)"

definition pes_payload_size :: "MpegMuxContext \<Rightarrow> StreamInfo \<Rightarrow> int \<Rightarrow> int \<Rightarrow> int" where
  "pes_payload_size s stream preface_size last_pkt =
     packet_size s - (preface_size + 6 + pes_header_len s + (if last_pkt \<noteq> 0 then 4 else 0))
       - (if uint (stream_id stream) < 0xc0 then 4 else 0)"

text \<open>A run of calls of \<^verbatim>\<open>flush_packet\<close>, each with its stream index and \<^verbatim>\<open>last_pkt\<close>.\<close>

fun flush_run :: "AVFormatContext \<Rightarrow> (nat \<times> int) list \<Rightarrow> AVFormatContext option" where
  "flush_run ctx [] = Some ctx"
| "flush_run ctx ((i, last_pkt) # calls) =
     (case flush_packet ctx i last_pkt of
        None \<Rightarrow> None
      | Some ctx' \<Rightarrow> flush_run ctx' calls)"

text \<open>
  The effect of one flush in closed form, for the proofs: the calls it makes on the sink,
  in order, and the stream's state afterwards. \<open>flush_packet_eq\<close> below proves that
  \<^verbatim>\<open>flush_packet\<close> does exactly this.
\<close>

definition flush_tail_ops :: "MpegMuxContext \<Rightarrow> StreamInfo \<Rightarrow> int \<Rightarrow> int \<Rightarrow> put_op list" where
  "flush_tail_ops s stream last_pkt payload_size =
     (let sid = uint (stream_id stream)
      in (if is_mpeg2 s \<noteq> 0 then [Put_byte 0x80, Put_byte 0x80, Put_byte 0x05] else []) @
         put_pts (start_pts stream) @
         (if sid < 0xc0
          then Put_byte sid # (if 0x80 \<le> sid then [Put_byte 1, Put_byte 0, Put_byte 2] else [])
          else []) @
         (if last_pkt \<noteq> 0 then [Put_be32 0x000001b9] else []) @
         [Put_buffer (take (nat (payload_size - max 0 (payload_size - buffer_ptr stream)))
            (buffer stream)),
          Put_flush_packet])"

definition flush_ops :: "MpegMuxContext \<Rightarrow> StreamInfo \<Rightarrow> int \<Rightarrow> byte list \<Rightarrow> put_op list" where
  "flush_ops s stream last_pkt preface =
     (let payload_size = pes_payload_size s stream (int (length preface)) last_pkt;
          sid = uint (stream_id stream)
      in [Put_buffer preface,
          Put_be32 (if sid < 0xc0 then 0x1bd else 0x100 + sid),
          Put_be16 (payload_size + pes_header_len s)] @
         replicate (nat (max 0 (payload_size - buffer_ptr stream))) (Put_byte 0xff) @
         flush_tail_ops s stream last_pkt payload_size)"

definition flushed_stream :: "StreamInfo \<Rightarrow> int \<Rightarrow> StreamInfo" where
  "flushed_stream stream payload_size =
     (let len = max 0 (buffer_ptr stream - payload_size) in
      stream
        \<lparr>buffer := take (nat len) (drop (nat (buffer_ptr stream - len)) (buffer stream))
                    @ drop (nat len) (buffer stream),
         buffer_ptr := len,
         stream_packet_number := stream_packet_number stream + 1,
         start_pts := -1\<rparr>)"

text \<open>
  The Video-CD session after a first \<^verbatim>\<open>mpeg_mux_write_packet\<close> of 100 bytes on its
  stream: the bytes are pending in the buffer and stamped with the timestamp 0.
\<close>

definition vcd_pending :: AVFormatContext where
  "vcd_pending =
     vcd_session\<lparr>streams := [vcd_audio_stream\<lparr>buffer_ptr := 100, start_pts := 0\<rparr>]\<rparr>"

text \<open>
  An MPEG-1 system session with one MPEG audio stream of 16000 bit/s, as \<^verbatim>\<open>mpeg_mux_init\<close>
  sets it up (\<open>bitrate = 18000\<close>, so \<open>pack_header_freq = 2 * 18000 / 2048 / 8 = 2\<close>,
  \<open>system_header_freq = 10\<close> and \<open>mux_rate = 45\<close>), at the moment the stream's buffer has
  reached \<^verbatim>\<open>packet_data_max_size\<close>.
\<close>

definition lowrate_session :: AVFormatContext where
  "lowrate_session =
     \<lparr>priv_data =
        \<lparr>packet_size = 2048, packet_data_max_size = 2041, packet_number = 0,
         pack_header_freq = 2, system_header_freq = 10, mux_rate = 45,
         audio_bound = 1, video_bound = 0, is_mpeg2 = 0, is_vcd = 0\<rparr>,
      streams =
        [\<lparr>buffer = replicate 4096 0, buffer_ptr = 2041, stream_id = 0xc0,
          max_buffer_size = 4 * 1024, stream_packet_number = 0, pts = 0,
          pts_ticker = ticker_init 16000 (90000 * 1152), start_pts = 0\<rparr>],
      pb = []\<rparr>"

text \<open>A sink whose last call, if any, committed a unit.\<close>

definition committed :: "put_op list \<Rightarrow> bool" where
  "committed ops = (ops = [] \<or> last ops = Put_flush_packet)"

text \<open>
  An MPEG-1 system session with an MPEG video stream (1150000 bit/s, 30 frames/s) and an
  MPEG audio stream (224000 bit/s), as \<^verbatim>\<open>mpeg_mux_init\<close> sets it up (\<open>bitrate = 1376000\<close>,
  \<open>pack_header_freq = 167\<close>, \<open>system_header_freq = 835\<close>, \<open>mux_rate = 3440\<close>), with the
  given numbers of bytes pending in the two buffers after a first
  \<^verbatim>\<open>mpeg_mux_write_packet\<close> on each stream that has any.
\<close>

definition av_session :: "int \<Rightarrow> int \<Rightarrow> AVFormatContext" where
  "av_session video_pending audio_pending =
     \<lparr>priv_data =
        \<lparr>packet_size = 2048, packet_data_max_size = 2041, packet_number = 0,
         pack_header_freq = 167, system_header_freq = 835, mux_rate = 3440,
         audio_bound = 1, video_bound = 1, is_mpeg2 = 0, is_vcd = 0\<rparr>,
      streams =
        [\<lparr>buffer = replicate 4096 0, buffer_ptr = video_pending, stream_id = 0xe0,
          max_buffer_size = 46 * 1024, stream_packet_number = 0, pts = 3000,
          pts_ticker = ticker_init 300000 (90000 * 10000),
          start_pts = (if video_pending = 0 then -1 else 0)\<rparr>,
         \<lparr>buffer = replicate 4096 0, buffer_ptr = audio_pending, stream_id = 0xc0,
          max_buffer_size = 4 * 1024, stream_packet_number = 0, pts = 2351,
          pts_ticker = ticker_init 44100 (90000 * 1152),
          start_pts = (if audio_pending = 0 then -1 else 0)\<rparr>],
      pb = []\<rparr>"

subsection \<open>The byte source of the demultiplexer\<close>

text \<open>
  Modelled from the spec: the reading side of \<^verbatim>\<open>ByteIOContext\<close> (\<^verbatim>\<open>get_byte\<close>, \<^verbatim>\<open>get_be16\<close>,
  \<^verbatim>\<open>url_feof\<close>, \<^verbatim>\<open>url_fskip\<close>, \<^verbatim>\<open>get_buffer\<close>) is not among the sources. The source is
  modelled as the bytes not yet read. \<^verbatim>\<open>get_byte\<close> returns the next byte as an \<^verbatim>\<open>int\<close> in
  \<open>0..255\<close>, and 0 once the input is exhausted; \<^verbatim>\<open>get_be16\<close> reads two bytes, the high one
  first; \<^verbatim>\<open>url_feof\<close> tells whether the input is exhausted; \<^verbatim>\<open>url_fskip\<close> skips and
  \<^verbatim>\<open>get_buffer\<close> reads the given number of bytes, or as many as are left.
\<close>

type_synonym byte_source = "byte list"

definition get_byte :: "byte_source \<Rightarrow> int \<times> byte_source" where
  "get_byte src = (case src of [] \<Rightarrow> (0, []) | b # rest \<Rightarrow> (uint b, rest))"

definition get_be16 :: "byte_source \<Rightarrow> int \<times> byte_source" where
  "get_be16 src =
     (case get_byte src of (hi, src) \<Rightarrow>
        case get_byte src of (lo, src) \<Rightarrow> (push_bit 8 hi OR lo, src))"

definition url_feof :: "byte_source \<Rightarrow> bool" where
  "url_feof src = (src = [])"

definition url_fskip :: "byte_source \<Rightarrow> int \<Rightarrow> byte_source" where
  "url_fskip src n = drop (nat n) src"

definition get_buffer :: "byte_source \<Rightarrow> int \<Rightarrow> byte list \<times> byte_source" where
  "get_buffer src n = (take (nat n) src, drop (nat n) src)"

subsection \<open>Decoding a timestamp\<close>

text \<open>
  \<^verbatim>\<open>get_pts\<close>: the first byte is the argument \<^verbatim>\<open>c\<close>, or is read from the source when \<^verbatim>\<open>c\<close>
  is negative. The result is an \<^verbatim>\<open>INT64\<close>; the three parts occupy disjoint bits below
  bit 33.
\<close>

definition get_pts :: "byte_source \<Rightarrow> int \<Rightarrow> int \<times> byte_source" where
  "get_pts src c =
     (case (if c < 0 then get_byte src else (c, src)) of (c, src) \<Rightarrow>
        let pts = push_bit 30 (drop_bit 1 c AND 0x07) in
        case get_be16 src of (val, src) \<Rightarrow>
          let pts = pts OR push_bit 15 (drop_bit 1 val) in
          case get_be16 src of (val, src) \<Rightarrow>
            let pts = pts OR drop_bit 1 val in
            (pts, src))"

text \<open>The value \<^verbatim>\<open>get_pts\<close> computes from a first byte \<open>a\<close> and four more bytes.\<close>

definition pts_of_bytes :: "int \<Rightarrow> byte \<Rightarrow> byte \<Rightarrow> byte \<Rightarrow> byte \<Rightarrow> int" where
  "pts_of_bytes a b1 b2 c1 c2 =
     push_bit 30 (drop_bit 1 a AND 0x07) OR
     push_bit 15 (drop_bit 1 (push_bit 8 (uint b1) OR uint b2)) OR
     drop_bit 1 (push_bit 8 (uint c1) OR uint c2)"

subsection \<open>Probing\<close>

text \<open>
  \<^verbatim>\<open>mpegps_probe\<close>. \<^verbatim>\<open>AVProbeData\<close> is the probed buffer, \<^verbatim>\<open>buf_size\<close> being its length. The
  register \<^verbatim>\<open>code\<close> is a 32-bit \<^verbatim>\<open>int\<close>: the shift drops the bits above bit 31, the test of
  the prefix and the comparisons with the start-code constants are made on the 32-bit
  pattern, and the range comparisons read it as a signed value. The constant
  \<^verbatim>\<open>AVPROBE_SCORE_MAX\<close> is declared outside \<^verbatim>\<open>mpeg.c\<close> and is a parameter here.
\<close>

record AVProbeData =
  buf :: "byte list"

fun mpegps_probe_loop :: "int \<Rightarrow> 32 word \<Rightarrow> byte list \<Rightarrow> int" where
  "mpegps_probe_loop score_max code [] = 0"
| "mpegps_probe_loop score_max code (c # rest) =
     (let code = push_bit 8 code OR ucast c in
      if code AND 0xffffff00 = 0x100 then
        (if code = 0x000001ba \<or>
            code = 0x000001bb \<or>
            (0x1e0 \<le> sint code \<and> sint code \<le> 0x1ef) \<or>
            (0x1c0 \<le> sint code \<and> sint code \<le> 0x1df) \<or>
            code = 0x1bf \<or>
            code = 0x1bc \<or>
            code = 0x1bd \<or>
            code = 0x1be
         then score_max - 1
         else 0)
      else mpegps_probe_loop score_max code rest)"

definition mpegps_probe :: "int \<Rightarrow> AVProbeData \<Rightarrow> int" where
  "mpegps_probe score_max p = mpegps_probe_loop score_max 0xff (buf p)"

text \<open>
  The specification's reading of the probe: the byte that follows the first occurrence of
  the prefix \<open>00 00 01\<close> in the buffer, if there is one, and the start codes that belong
  to a program stream (pack \<open>0x1BA\<close>, system \<open>0x1BB\<close>, \<open>0x1BC..0x1BF\<close>, audio
  \<open>0x1C0..0x1DF\<close>, video \<open>0x1E0..0x1EF\<close>).
\<close>

fun first_start_code :: "byte list \<Rightarrow> byte option" where
  "first_start_code (b0 # b1 # b2 # x # rest) =
     (if b0 = 0 \<and> b1 = 0 \<and> b2 = 1 then Some x else first_start_code (b1 # b2 # x # rest))"
| "first_start_code bs = None"

definition is_ps_code :: "byte \<Rightarrow> bool" where
  "is_ps_code x =
     (x = 0xba \<or> x = 0xbb \<or> (0xbc \<le> x \<and> x \<le> 0xbf) \<or> (0xc0 \<le> x \<and> x \<le> 0xdf) \<or>
      (0xe0 \<le> x \<and> x \<le> 0xef))"

text \<open>The three low bytes of the register, the most significant first.\<close>

definition low_bytes :: "32 word \<Rightarrow> byte list" where
  "low_bytes code = [ucast (drop_bit 16 code), ucast (drop_bit 8 code), ucast code]"

text \<open>
  An MPEG-1 system session with one MPEG audio stream of 24000 bit/s (\<open>bitrate = 26000\<close>,
  so \<open>pack_header_freq = 2 * 26000 / 2048 / 8 = 3\<close>, \<open>system_header_freq = 15\<close> and
  \<open>mux_rate = 65\<close>) that has flushed 2147483647 packets: both packet counters hold the
  largest \<^verbatim>\<open>int\<close>, and the stream's buffer has again reached \<^verbatim>\<open>packet_data_max_size\<close>.
\<close>

definition longrun_session :: AVFormatContext where
  "longrun_session =
     \<lparr>priv_data =
        \<lparr>packet_size = 2048, packet_data_max_size = 2041, packet_number = 2147483647,
         pack_header_freq = 3, system_header_freq = 15, mux_rate = 65,
         audio_bound = 1, video_bound = 0, is_mpeg2 = 0, is_vcd = 0\<rparr>,
      streams =
        [\<lparr>buffer = replicate 4096 0, buffer_ptr = 2041, stream_id = 0xc0,
          max_buffer_size = 4 * 1024, stream_packet_number = 2147483647, pts = 0,
          pts_ticker = ticker_init 16000 (90000 * 1152), start_pts = 0\<rparr>],
      pb = []\<rparr>"

section \<open>Properties\<close>

subsection \<open>The ticker does not drift\<close>

lemma ticker_tick_fields:
  "num (snd (ticker_tick t n)) = num t" "den (snd (ticker_tick t n)) = den t"
  by (simp_all add: ticker_tick_def)

lemma ticker_run_invariant:
  "0 < den t \<Longrightarrow> 0 \<le> err t \<Longrightarrow> err t < den t \<Longrightarrow>
   fst (ticker_run t p ns) = p + (num t * sum_list ns + err t) div den t \<and>
   err (snd (ticker_run t p ns)) = (num t * sum_list ns + err t) mod den t"
proof (induction ns arbitrary: t p)
  case Nil
  then show ?case by simp
next
  case (Cons n ns)
  let ?a = "n * num t + err t"
  let ?t' = "t\<lparr>err := ?a mod den t\<rparr>"
  have step: "ticker_run t p (n # ns) = ticker_run ?t' (p + ?a div den t) ns"
    by (simp add: ticker_tick_def)
  have pre: "0 < den ?t'" "0 \<le> err ?t'" "err ?t' < den ?t'"
    using Cons.prems by simp_all
  have split: "num t * sum_list ns + ?a mod den t + den t * (?a div den t)
      = num t * sum_list (n # ns) + err t"
    by (simp add: algebra_simps)
  have d: "(num t * sum_list ns + ?a mod den t) div den t + ?a div den t
      = (num t * sum_list (n # ns) + err t) div den t"
    using Cons.prems(1) split
    by (metis add.commute div_mult_self2 less_irrefl)
  have m: "(num t * sum_list ns + ?a mod den t) mod den t
      = (num t * sum_list (n # ns) + err t) mod den t"
    using split by (metis mod_mult_self2)
  from Cons.IH [OF pre, of "p + ?a div den t"] d m show ?case
    unfolding step by simp
qed

text \<open>
  C1. For a non-negative numerator, a positive denominator and any finite sequence of
  tick arguments, a ticker that starts from \<open>err = 0\<close> returns increments whose sum is
  the floor of \<open>num * (n1 + ... + nk) / den\<close>: the timestamp accumulated from \<open>0\<close> never
  drifts from the ideal value.
\<close>

theorem ticker_drift_free:
  assumes "0 \<le> num t" and "0 < den t" and "err t = 0"
  shows "fst (ticker_run t 0 ns) = (num t * sum_list ns) div den t"
  using ticker_run_invariant [of t 0 ns] assms by simp

theorem ticker_drift_free_witness:
  "fst (ticker_run (ticker_init 44100 (90000 * 1152)) 0 [1, 1, 1, 2])
     = (90000 * 1152 * 5) div 44100
   \<and> fst (ticker_run (ticker_init 44100 (90000 * 1152)) 0 [1, 1, 1, 2]) = 11755"
  using ticker_drift_free [of "ticker_init 44100 (90000 * 1152)" "[1, 1, 1, 2]"]
  by (simp add: ticker_init_def)

subsection \<open>The bit writer\<close>

lemma byte_bits:
  "bits_of_byte (byte_of_bits [b7, b6, b5, b4, b3, b2, b1, b0]) = [b7, b6, b5, b4, b3, b2, b1, b0]"
  by (simp add: bits_of_byte_def bit_simps)

lemma bits_of_bytes_flush: "8 dvd length bs \<Longrightarrow> bits_of_bytes (flush_put_bits bs) = bs"
proof (induction bs rule: flush_put_bits.induct)
  case (1 b7 b6 b5 b4 b3 b2 b1 b0 bs)
  then have "8 dvd length bs" by simp presburger
  with 1 show ?case
    using byte_bits by (simp add: bits_of_bytes_def del: byte_of_bits.simps)
qed (simp add: bits_of_bytes_def, (drule dvd_imp_le, simp, simp)+)

lemma length_flush_put_bits: "length (flush_put_bits bs) = (length bs + 7) div 8"
  by (induction bs rule: flush_put_bits.induct) simp_all

lemma length_put_bits: "length (put_bits bits n v) = length bits + n"
  by (simp add: put_bits_def)

lemma field_slice:
  "map (bit (drop_bit k v AND mask n)) (rev [0..<n]) = map (bit (v::int)) (rev [k..<k + n])"
  by (rule nth_equalityI) (auto simp add: rev_nth bit_simps)

lemma field_slice0:
  "map (bit (v AND mask n)) (rev [0..<n]) = map (bit (v::int)) (rev [0..<n])"
  using field_slice [of 0 v n] by simp

lemma masks: "(0x07::int) = mask 3" "(0x7fff::int) = mask 15"
  by (simp_all add: mask_eq_exp_minus_1)

subsection \<open>The pack header\<close>

lemma start_code_bits:
  "map (bit (0x000001ba::int)) (rev [0..<32]) = bits_of_bytes [0x00, 0x00, 0x01, 0xba]"
  by code_simp

lemma small_fields:
  "map (bit (2::int)) (rev [0..<4]) = [False, False, True, False]"
  "map (bit (1::int)) (rev [0..<1]) = [True]"
  by code_simp+

lemma pack_bits:
  "put_bits (put_bits (put_bits (put_bits (put_bits (put_bits (put_bits (put_bits (put_bits
     (put_bits (put_bits init_put_bits 32 0x000001ba) 4 0x2) 3 (drop_bit 30 ts AND 0x07)) 1 1)
      15 (drop_bit 15 ts AND 0x7fff)) 1 1) 15 (ts AND 0x7fff)) 1 1) 1 1) 22 r) 1 1
   = pack_header_bits ts r"
  unfolding put_bits_def init_put_bits_def pack_header_bits_def masks
    field_slice [of 30 ts 3] field_slice [of 15 ts 15] field_slice0 [of ts 15]
    start_code_bits small_fields
  by simp

lemma length_pack_header_bits: "length (pack_header_bits ts r) = 96"
  by (simp add: pack_header_bits_def bits_of_bytes_def bits_of_byte_def)

lemma put_pack_header_eq:
  "put_pack_header ctx timestamp =
     (flush_put_bits (pack_header_bits timestamp (mux_rate (priv_data ctx))), 12)"
  unfolding put_pack_header_def Let_def pack_bits
  by (simp add: length_flush_put_bits length_pack_header_bits)

text \<open>
  C8, as the specification states it, fails: the header \<^verbatim>\<open>put_pack_header\<close> writes has 12
  bytes, not 14 (its fields add up to 96 bits). Here for the Video-CD session and the
  timestamp \<open>0x123456789\<close>.
\<close>

theorem put_pack_header_not_14_bytes:
  "put_pack_header vcd_session 0x123456789 =
     ([0x00, 0x00, 0x01, 0xba, 0x29, 0x8d, 0x15, 0xcf, 0x13, 0x80, 0x04, 0x6b], 12)
   \<and> length (fst (put_pack_header vcd_session 0x123456789)) \<noteq> 14
   \<and> snd (put_pack_header vcd_session 0x123456789) \<noteq> 14"
  by code_simp

text \<open>
  C8, amended. \<^verbatim>\<open>put_pack_header\<close> writes a 12-byte MPEG-1 pack header and returns 12,
  the number of bytes written. Read most significant bit first, the bytes are the start
  code \<open>0x000001BA\<close>, the bits \<open>0010\<close>, the bits 32..30, 29..15 and 14..0 of the
  timestamp, each group followed by a marker bit \<open>1\<close>, one more marker bit, the 22 low
  bits of \<^verbatim>\<open>mux_rate\<close> and a final marker bit.
\<close>

theorem put_pack_header_layout:
  "snd (put_pack_header ctx timestamp) = 12 \<and>
   length (fst (put_pack_header ctx timestamp)) = 12 \<and>
   bits_of_bytes (fst (put_pack_header ctx timestamp)) =
     pack_header_bits timestamp (mux_rate (priv_data ctx))"
  by (simp add: put_pack_header_eq length_flush_put_bits length_pack_header_bits
      bits_of_bytes_flush)

subsection \<open>The system header\<close>

lemma small2: "map (bit (3::int)) (rev [0..<2]) = [True, True]" 
  "map (bit (0::int)) (rev [0..<1]) = [False]"
  "map (bit (1::int)) (rev [0..<1]) = [True]"
  "map (bit (0xbd::int)) (rev [0..<8]) = [True, False, True, True, True, True, False, True]"
  by code_simp+

lemma entries_coded:
  "put_stream_entries bits True ss =
     bits @ concat (map (\<lambda>st. stream_entry_bits (entry_id st) (max_buffer_size st))
        (filter (\<lambda>s. \<not> uint (stream_id s) < 0xc0) ss))"
  by (induction ss arbitrary: bits)
     (auto simp add: Let_def entry_id_def stream_entry_bits_def put_bits_def small2)

lemma filter_entries:
  "system_header_entries (filter (\<lambda>s. \<not> uint (stream_id s) < 0xc0) ss)
    = map (\<lambda>st. (entry_id st, max_buffer_size st)) (filter (\<lambda>s. \<not> uint (stream_id s) < 0xc0) ss)"
  by (induction ss) auto

lemma entries_uncoded:
  "put_stream_entries bits False ss =
     bits @ concat (map (\<lambda>(sid, bound). stream_entry_bits sid bound) (system_header_entries ss))"
proof (induction ss arbitrary: bits)
  case Nil
  then show ?case by simp
next
  case (Cons st ss)
  show ?case
  proof (cases "uint (stream_id st) < 0xc0")
    case True
    then show ?thesis
      by (simp add: Let_def entries_coded filter_entries entry_id_def stream_entry_bits_def
          put_bits_def small2 comp_def)
  next
    case False
    then show ?thesis
      by (simp add: Let_def Cons.IH entry_id_def stream_entry_bits_def put_bits_def small2)
  qed
qed

lemma length_bits_of_byte: "length (bits_of_byte b) = 8"
  by (simp add: bits_of_byte_def)

lemma bits_of_bytes_drop: "bits_of_bytes (drop k bs) = drop (8 * k) (bits_of_bytes bs)"
proof (induction bs arbitrary: k)
  case Nil
  then show ?case by (simp add: bits_of_bytes_def)
next
  case (Cons b bs)
  then show ?case
    by (cases k) (simp_all add: bits_of_bytes_def length_bits_of_byte)
qed

lemma system_bits:
  "put_bits (put_bits (put_bits (put_bits (put_bits (put_bits (put_bits (put_bits (put_bits
     (put_bits (put_bits (put_bits (put_bits init_put_bits 32 0x000001bb) 16 0) 1 1) 22 (mux_rate s))
      1 1) 6 (audio_bound s)) 1 1) 1 1) 1 0) 1 0) 1 1) 5 (video_bound s)) 8 0xff
   = system_header_bits s"
  unfolding put_bits_def init_put_bits_def system_header_bits_def
  by (simp add: small2) code_simp

lemma length_system_header_bits: "length (system_header_bits s) = 96"
  by (simp add: system_header_bits_def bits_of_bytes_def bits_of_byte_def)

lemma length_stream_entry_bits: "length (stream_entry_bits sid bound) = 24"
  by (simp add: stream_entry_bits_def)

lemma length_concat_entries:
  "length (concat (map (\<lambda>(sid, bound). stream_entry_bits sid bound) es)) = 24 * length es"
  by (induction es) (auto simp add: length_stream_entry_bits)

lemma system_header_bytes: "(103 + 24 * k) div 8 = 12 + 3 * (k::nat)"
  by presburger

lemma put_system_header_eq:
  "put_system_header ctx =
     (let buf = flush_put_bits (system_header_bits (priv_data ctx)
                  @ system_header_stream_bits (streams ctx));
          n = 12 + 3 * int (length (system_header_entries (streams ctx)))
      in ((buf[4 := word_of_int (drop_bit 8 (n - 6))])[5 := word_of_int ((n - 6) AND 0xff)], n))"
  unfolding put_system_header_def Let_def system_bits entries_uncoded
  by (simp add: length_flush_put_bits length_system_header_bits length_concat_entries
      system_header_stream_bits_def system_header_bytes)

lemma private_entries:
  "filter (\<lambda>e. fst e < 0xc0) (system_header_entries ss) =
     (case find (\<lambda>st. uint (stream_id st) < 0xc0) ss of
        None \<Rightarrow> [] | Some st \<Rightarrow> [(0xbd, max_buffer_size st)])"
  by (induction ss) (auto simp add: entry_id_def filter_entries filter_map comp_def)

lemma other_entries:
  "filter (\<lambda>e. \<not> fst e < 0xc0) (system_header_entries ss) =
     map (\<lambda>st. (uint (stream_id st), max_buffer_size st))
       (filter (\<lambda>st. \<not> uint (stream_id st) < 0xc0) ss)"
  by (induction ss) (auto simp add: entry_id_def filter_entries filter_map comp_def)

lemma put_system_header_vob:
  "put_system_header vob_session =
     ([0x00, 0x00, 0x01, 0xbb, 0x00, 0x0c, 0x80, 0x1e, 0x01, 0x0b, 0x21, 0xff,
       0xe0, 0xe0, 0x2e, 0xbd, 0xc0, 0x20], 18)"
  by code_simp

text \<open>
  C9. After its fixed 12 bytes the system header consists of one 3-byte entry per
  element of \<open>system_header_entries\<close>, each laid out as the id, \<open>11\<close>, the scale bit and
  the 13-bit scaled bound. Among these entries at most one has an id below \<open>0xC0\<close>: it
  exists when some stream has an id below \<open>0xC0\<close>, it carries the id \<open>0xBD\<close> (and the
  bound of the first such stream), and every other stream has an entry under its own id.
\<close>

theorem put_system_header_entries:
  "snd (put_system_header ctx) = 12 + 3 * int (length (system_header_entries (streams ctx))) \<and>
   int (length (fst (put_system_header ctx))) = snd (put_system_header ctx) \<and>
   bits_of_bytes (drop 12 (fst (put_system_header ctx))) =
     concat (map (\<lambda>(sid, bound). stream_entry_bits sid bound)
       (system_header_entries (streams ctx))) \<and>
   filter (\<lambda>e. fst e < 0xc0) (system_header_entries (streams ctx)) =
     (case find (\<lambda>st. uint (stream_id st) < 0xc0) (streams ctx) of
        None \<Rightarrow> [] | Some st \<Rightarrow> [(0xbd, max_buffer_size st)]) \<and>
   filter (\<lambda>e. \<not> fst e < 0xc0) (system_header_entries (streams ctx)) =
     map (\<lambda>st. (uint (stream_id st), max_buffer_size st))
       (filter (\<lambda>st. \<not> uint (stream_id st) < 0xc0) (streams ctx))"
proof -
  let ?bits = "system_header_bits (priv_data ctx) @ system_header_stream_bits (streams ctx)"
  have len: "length ?bits = 8 * (12 + 3 * length (system_header_entries (streams ctx)))"
    by (simp add: length_system_header_bits length_concat_entries system_header_stream_bits_def)
  then have unpacked: "bits_of_bytes (flush_put_bits ?bits) = ?bits"
    by (intro bits_of_bytes_flush) simp
  have "bits_of_bytes (drop 12 (fst (put_system_header ctx))) = drop 96 ?bits"
    by (simp add: put_system_header_eq Let_def bits_of_bytes_drop unpacked
        del: drop_append)
  then have "bits_of_bytes (drop 12 (fst (put_system_header ctx))) =
      system_header_stream_bits (streams ctx)"
    by (simp add: length_system_header_bits)
  moreover have "int (length (fst (put_system_header ctx))) = snd (put_system_header ctx)"
    using len by (simp add: put_system_header_eq Let_def length_flush_put_bits)
  ultimately show ?thesis
    by (simp add: private_entries other_entries system_header_stream_bits_def)
       (simp add: put_system_header_eq Let_def)
qed

subsection \<open>One flush in closed form\<close>

lemma flush_packet_None:
  "flush_packet ctx i l = None \<longleftrightarrow>
     length (streams ctx) \<le> i \<or> flush_headers ctx (start_pts (streams ctx ! i)) = None"
  by (simp add: flush_packet_def Let_def split: option.splits)

lemma if_max: "(if a - b < 0 then 0 else a - b) = max 0 (a - (b::int))"
  by (simp add: max_def)

lemma startcode_private: "0 \<le> sid \<Longrightarrow> ((if sid < 0xc0 then 0x1bd else 0x100 + sid) = (0x1bd::int)) = (sid < 0xc0)"
  by auto

lemma flush_packet_eq:
  assumes "i < length (streams ctx)"
    and "flush_headers ctx (start_pts (streams ctx ! i)) = Some preface"
  shows "flush_packet ctx i l =
     Some (ctx\<lparr>priv_data := (priv_data ctx)\<lparr>packet_number := packet_number (priv_data ctx) + 1\<rparr>,
               streams := (streams ctx)[i := flushed_stream (streams ctx ! i)
                  (pes_payload_size (priv_data ctx) (streams ctx ! i) (int (length preface)) l)],
               pb := pb ctx @ flush_ops (priv_data ctx) (streams ctx ! i) l preface\<rparr>)"
proof -
  have sc: "((if uint (stream_id (streams ctx ! i)) < 0xc0 then 0x1bd
             else 0x100 + uint (stream_id (streams ctx ! i))) = (0x1bd::int))
           = (uint (stream_id (streams ctx ! i)) < 0xc0)"
    by (rule startcode_private) simp
  show ?thesis
    using assms
    unfolding flush_packet_def Let_def flush_ops_def flush_tail_ops_def flushed_stream_def
      pes_payload_size_def
      pes_header_len_def if_max sc
    apply (cases "is_mpeg2 (priv_data ctx) = 0"; cases "l = 0";
        cases "uint (stream_id (streams ctx ! i)) < 0xc0")
    apply simp_all
    done
qed

lemma smod_eq_0_iff: "l \<noteq> 0 \<Longrightarrow> (k smod l = 0) = (k mod l = (0::int))"
  by (auto simp add: smod_int_alt_def sgn_if mod_eq_0_iff_dvd)

lemma flush_packet_SomeD:
  assumes "flush_packet ctx i l = Some ctx'"
  shows "\<exists>preface. i < length (streams ctx) \<and>
           flush_headers ctx (start_pts (streams ctx ! i)) = Some preface \<and>
           ctx' = ctx\<lparr>priv_data := (priv_data ctx)\<lparr>packet_number := packet_number (priv_data ctx) + 1\<rparr>,
               streams := (streams ctx)[i := flushed_stream (streams ctx ! i)
                  (pes_payload_size (priv_data ctx) (streams ctx ! i) (int (length preface)) l)],
               pb := pb ctx @ flush_ops (priv_data ctx) (streams ctx ! i) l preface\<rparr>"
proof -
  from assms have "flush_packet ctx i l \<noteq> None" by simp
  then obtain preface where 1: "i < length (streams ctx)"
    and 2: "flush_headers ctx (start_pts (streams ctx ! i)) = Some preface"
    by (auto simp add: flush_packet_None)
  from flush_packet_eq [OF 1 2, of l] assms 1 2 show ?thesis by auto
qed

lemma pts_byte_not_stuffing:
  "push_bit 4 0x02 OR push_bit 1 (drop_bit 30 t AND 0x07) OR 1 \<noteq> (0xff::int)"
proof
  assume "push_bit 4 0x02 OR push_bit 1 (drop_bit 30 t AND 0x07) OR 1 = (0xff::int)"
  then have "bit (push_bit 4 0x02 OR push_bit 1 (drop_bit 30 t AND 0x07) OR (1::int)) 7
     = bit (0xff::int) 7" by simp
  then show False by (simp add: bit_simps)
qed

lemma count_put_pts:
  "count_list (put_pts t) (Put_byte 0xff) = 0"
  "count_list (put_pts t) (Put_be32 v) = 0"
  "count_list (put_pts t) Put_flush_packet = 0"
  using pts_byte_not_stuffing [of t] by (simp_all add: put_pts_def)

lemma count_list_replicate: "count_list (replicate n x) y = (if x = y then n else 0)"
  by (induction n) auto

lemma count_tail:
  "count_list (flush_tail_ops s stream l p) (Put_byte 0xff) = 0"
  "count_list (flush_tail_ops s stream l p) (Put_be32 0x000001b9) = (if l \<noteq> 0 then 1 else 0)"
  by (simp_all add: flush_tail_ops_def Let_def count_put_pts)

lemma count_stuffing:
  "count_list (flush_ops s stream l preface) (Put_byte 0xff) =
     nat (max 0 (pes_payload_size s stream (int (length preface)) l - buffer_ptr stream))"
  by (simp add: flush_ops_def Let_def count_tail count_list_replicate)

lemma count_end_code:
  "count_list (flush_ops s stream l preface) (Put_be32 0x000001b9) = (if l \<noteq> 0 then 1 else 0)"
  by (simp add: flush_ops_def Let_def count_tail count_list_replicate)

subsection \<open>Payload size and stuffing\<close>

text \<open>
  C2. A successful flush writes, after the header bytes \<open>preface\<close> just emitted, the
  start code and the 16-bit length \<open>payload_size + header_len\<close>, where \<open>payload_size\<close> is
  \<open>packet_size - (preface_size + 6 + header_len + last)\<close>, less 4 for a stream id below
  \<open>0xC0\<close>. Then it writes exactly \<open>max 0 (payload_size - buffer_ptr)\<close> stuffing bytes
  \<open>0xFF\<close> and, in the rest of the packet, no further \<^verbatim>\<open>put_byte\<close> of \<open>0xFF\<close>; when
  \<open>buffer_ptr \<ge> payload_size\<close> it writes no stuffing byte at all.
\<close>

theorem flush_packet_payload_stuffing:
  assumes "flush_packet ctx i last_pkt = Some ctx'"
  shows "\<exists>preface startcode rest.
     flush_headers ctx (start_pts (streams ctx ! i)) = Some preface \<and>
     (let payload_size =
            pes_payload_size (priv_data ctx) (streams ctx ! i) (int (length preface)) last_pkt;
          stuffing_size = max 0 (payload_size - buffer_ptr (streams ctx ! i))
      in pb ctx' = pb ctx @
           [Put_buffer preface, Put_be32 startcode,
            Put_be16 (payload_size + pes_header_len (priv_data ctx))] @
           replicate (nat stuffing_size) (Put_byte 0xff) @ rest \<and>
         count_list rest (Put_byte 0xff) = 0 \<and>
         count_list (drop (length (pb ctx)) (pb ctx')) (Put_byte 0xff) = nat stuffing_size \<and>
         (payload_size \<le> buffer_ptr (streams ctx ! i) \<longrightarrow>
            count_list (drop (length (pb ctx)) (pb ctx')) (Put_byte 0xff) = 0))"
proof -
  from flush_packet_SomeD [OF assms] obtain preface where
    h: "flush_headers ctx (start_pts (streams ctx ! i)) = Some preface"
    and c: "pb ctx' = pb ctx @ flush_ops (priv_data ctx) (streams ctx ! i) last_pkt preface"
    by auto
  let ?s = "priv_data ctx" and ?st = "streams ctx ! i"
  let ?P = "pes_payload_size ?s ?st (int (length preface)) last_pkt"
  let ?rest = "flush_tail_ops ?s ?st last_pkt ?P"
  have split: "flush_ops ?s ?st last_pkt preface =
      [Put_buffer preface,
       Put_be32 (if uint (stream_id ?st) < 0xc0 then 0x1bd else 0x100 + uint (stream_id ?st)),
       Put_be16 (?P + pes_header_len ?s)] @
      replicate (nat (max 0 (?P - buffer_ptr ?st))) (Put_byte 0xff) @ ?rest"
    by (simp add: flush_ops_def Let_def)
  have rest: "count_list ?rest (Put_byte 0xff) = 0"
    by (simp add: count_tail)
  have total: "count_list (drop (length (pb ctx)) (pb ctx')) (Put_byte 0xff)
      = nat (max 0 (?P - buffer_ptr ?st))"
    by (simp add: c count_stuffing)
  show ?thesis
    apply (rule exI [of _ preface])
    apply (rule exI [of _ "if uint (stream_id ?st) < 0xc0 then 0x1bd else 0x100 + uint (stream_id ?st)"])
    apply (rule exI [of _ ?rest])
    unfolding Let_def
    using h c split rest total by auto
qed

lemma vcd_pending_headers:
  "flush_headers vcd_pending 0 =
     Some [0x00, 0x00, 0x01, 0xba, 0x21, 0x00, 0x01, 0x00, 0x01, 0x80, 0x04, 0x6b,
           0x00, 0x00, 0x01, 0xbb, 0x00, 0x09, 0x80, 0x04, 0x6b, 0x07, 0x20, 0xff,
           0xc0, 0xc0, 0x20]"
  by code_simp

theorem flush_packet_payload_stuffing_witness:
  "flush_packet vcd_pending 0 0 \<noteq> None \<and>
   count_list (pb (the (flush_packet vcd_pending 0 0))) (Put_byte 0xff) = 2186"
proof -
  have st: "streams vcd_pending ! 0 = vcd_audio_stream\<lparr>buffer_ptr := 100, start_pts := 0\<rparr>"
    "pb vcd_pending = []" "length (streams vcd_pending) = 1"
    "priv_data vcd_pending = priv_data vcd_session"
    by (simp_all add: vcd_pending_def vcd_session_def)
  have ok: "flush_packet vcd_pending 0 0 \<noteq> None"
    by (simp add: flush_packet_None st vcd_pending_headers)
  then have "flush_packet vcd_pending 0 0 = Some (the (flush_packet vcd_pending 0 0))"
    by simp
  from flush_packet_payload_stuffing [OF this] ok show ?thesis
    by (auto simp add: st vcd_pending_headers Let_def pes_payload_size_def pes_header_len_def
        vcd_session_def vcd_audio_stream_def)
qed

subsection \<open>Which headers a flush emits\<close>

lemma byte_of_bits_of_byte: "byte_of_bits (bits_of_byte b) = b"
proof (rule bit_word_eqI)
  fix k assume "k < LENGTH(8)"
  then have position: "k \<in> {7, 6, 5, 4, 3, 2, 1, 0}"
    by simp arith
  have "bit (byte_of_bits (bits_of_byte b)) 7 = bit b 7"
    by (simp add: bits_of_byte_def bit_or_iff bit_push_bit_iff bit_of_bool_iff)
  moreover have "bit (byte_of_bits (bits_of_byte b)) 6 = bit b 6"
    by (simp add: bits_of_byte_def bit_or_iff bit_push_bit_iff bit_of_bool_iff)
  moreover have "bit (byte_of_bits (bits_of_byte b)) 5 = bit b 5"
    by (simp add: bits_of_byte_def bit_or_iff bit_push_bit_iff bit_of_bool_iff)
  moreover have "bit (byte_of_bits (bits_of_byte b)) 4 = bit b 4"
    by (simp add: bits_of_byte_def bit_or_iff bit_push_bit_iff bit_of_bool_iff)
  moreover have "bit (byte_of_bits (bits_of_byte b)) 3 = bit b 3"
    by (simp add: bits_of_byte_def bit_or_iff bit_push_bit_iff bit_of_bool_iff)
  moreover have "bit (byte_of_bits (bits_of_byte b)) 2 = bit b 2"
    by (simp add: bits_of_byte_def bit_or_iff bit_push_bit_iff bit_of_bool_iff)
  moreover have "bit (byte_of_bits (bits_of_byte b)) 1 = bit b 1"
    by (simp add: bits_of_byte_def bit_or_iff bit_push_bit_iff bit_of_bool_iff)
  moreover have "bit (byte_of_bits (bits_of_byte b)) 0 = bit b 0"
    by (simp add: bits_of_byte_def bit_or_iff bit_push_bit_iff bit_of_bool_iff)
  ultimately show "bit (byte_of_bits (bits_of_byte b)) k = bit b k"
    using position by blast
qed

lemma flush_put_bits_byte:
  "flush_put_bits (bits_of_byte b @ bits) = b # flush_put_bits bits"
  using byte_of_bits_of_byte [of b] by (simp add: bits_of_byte_def)

lemma flush_put_bits_bytes:
  "flush_put_bits (bits_of_bytes bs @ bits) = bs @ flush_put_bits bits"
  by (induction bs) (simp_all add: bits_of_bytes_def flush_put_bits_byte)

lemma pack_header_start:
  "take 4 (fst (put_pack_header ctx timestamp)) = [0x00, 0x00, 0x01, 0xba]"
  unfolding put_pack_header_eq pack_header_bits_def by (simp add: flush_put_bits_bytes)

lemma system_header_start:
  "take 4 (fst (put_system_header ctx)) = [0x00, 0x00, 0x01, 0xbb]"
  unfolding put_system_header_eq system_header_bits_def Let_def
  by (simp add: flush_put_bits_bytes)

lemma pack_header_length: "length (fst (put_pack_header ctx timestamp)) = 12"
  by (simp add: put_pack_header_eq length_flush_put_bits length_pack_header_bits)

lemma put_system_header_length:
  "int (length (fst (put_system_header ctx))) = snd (put_system_header ctx)"
  by (simp add: put_system_header_eq Let_def length_flush_put_bits length_system_header_bits
      length_concat_entries system_header_stream_bits_def system_header_bytes)

lemma flush_headers_Some:
  assumes "flush_headers ctx timestamp = Some preface"
  shows "pack_header_freq (priv_data ctx) \<noteq> 0"
    and "(take 4 preface = [0x00, 0x00, 0x01, 0xba]) =
           (sint (packet_number (priv_data ctx)) mod pack_header_freq (priv_data ctx) = 0)"
    and "(take 4 (drop 12 preface) = [0x00, 0x00, 0x01, 0xbb]) =
           (sint (packet_number (priv_data ctx)) mod pack_header_freq (priv_data ctx) = 0 \<and>
            sint (packet_number (priv_data ctx)) mod system_header_freq (priv_data ctx) = 0)"
proof -
  let ?s = "priv_data ctx"
  show f: "pack_header_freq ?s \<noteq> 0"
    using assms by (auto simp add: flush_headers_def Let_def)
  have pk: "put_pack_header ctx timestamp = (fst (put_pack_header ctx timestamp), 12)"
    by (simp add: put_pack_header_eq)
  have sy: "put_system_header ctx = (fst (put_system_header ctx), int (length (fst (put_system_header ctx))))"
    using put_system_header_length [of ctx] by (simp add: prod_eq_iff)
  consider (none) "sint (packet_number ?s) mod pack_header_freq ?s \<noteq> 0"
    | (pack) "sint (packet_number ?s) mod pack_header_freq ?s = 0" "system_header_freq ?s \<noteq> 0"
        "sint (packet_number ?s) mod system_header_freq ?s \<noteq> 0"
    | (both) "sint (packet_number ?s) mod pack_header_freq ?s = 0" "system_header_freq ?s \<noteq> 0"
        "sint (packet_number ?s) mod system_header_freq ?s = 0"
    | (trap) "sint (packet_number ?s) mod pack_header_freq ?s = 0" "system_header_freq ?s = 0"
    by argo
  then have "(take 4 preface = [0x00, 0x00, 0x01, 0xba]) =
           (sint (packet_number ?s) mod pack_header_freq ?s = 0) \<and>
      (take 4 (drop 12 preface) = [0x00, 0x00, 0x01, 0xbb]) =
           (sint (packet_number ?s) mod pack_header_freq ?s = 0 \<and>
            sint (packet_number ?s) mod system_header_freq ?s = 0)"
  proof cases
    case none
    with assms f have "preface = []"
      by (simp add: flush_headers_def Let_def smod_eq_0_iff)
    with none show ?thesis by simp
  next
    case pack
    with assms f have "preface = fst (put_pack_header ctx timestamp)"
      by (subst (asm) flush_headers_def, subst (asm) pk)
         (simp add: Let_def smod_eq_0_iff pack_header_length)
    with pack show ?thesis by (simp add: pack_header_start pack_header_length)
  next
    case both
    with assms f have "preface = fst (put_pack_header ctx timestamp) @ fst (put_system_header ctx)"
      by (subst (asm) flush_headers_def, subst (asm) pk, subst (asm) sy)
         (simp add: Let_def smod_eq_0_iff pack_header_length)
    with both show ?thesis
      by (simp add: pack_header_start pack_header_length system_header_start)
  next
    case trap
    with assms f show ?thesis
      by (subst (asm) flush_headers_def, subst (asm) pk)
         (simp add: Let_def smod_eq_0_iff)
  qed
  then show "(take 4 preface = [0x00, 0x00, 0x01, 0xba]) =
           (sint (packet_number ?s) mod pack_header_freq ?s = 0)"
    and "(take 4 (drop 12 preface) = [0x00, 0x00, 0x01, 0xbb]) =
           (sint (packet_number ?s) mod pack_header_freq ?s = 0 \<and>
            sint (packet_number ?s) mod system_header_freq ?s = 0)"
    by simp_all
qed

subsection \<open>Header cadence\<close>

lemma packets_from_no_flush:
  "Put_flush_packet \<notin> set xs \<Longrightarrow> packets_from cur (xs @ ys) = packets_from (cur @ xs) ys"
proof (induction xs arbitrary: cur)
  case Nil
  then show ?case by simp
next
  case (Cons x xs)
  then show ?case by (cases x) simp_all
qed

lemma packets_from_flush:
  "Put_flush_packet \<notin> set xs \<Longrightarrow>
   packets_from cur (xs @ Put_flush_packet # ys) = (cur @ xs) # packets_from [] ys"
  by (simp add: packets_from_no_flush)

lemma flush_ops_shape:
  "\<exists>body. flush_ops s stream l preface = Put_buffer preface # body @ [Put_flush_packet] \<and>
     Put_flush_packet \<notin> set body"
proof -
  let ?P = "pes_payload_size s stream (int (length preface)) l"
  let ?sid = "uint (stream_id stream)"
  let ?body = "[Put_be32 (if ?sid < 0xc0 then 0x1bd else 0x100 + ?sid),
          Put_be16 (?P + pes_header_len s)] @
         replicate (nat (max 0 (?P - buffer_ptr stream))) (Put_byte 0xff) @
         (if is_mpeg2 s \<noteq> 0 then [Put_byte 0x80, Put_byte 0x80, Put_byte 0x05] else []) @
         put_pts (start_pts stream) @
         (if ?sid < 0xc0
          then Put_byte ?sid # (if 0x80 \<le> ?sid then [Put_byte 1, Put_byte 0, Put_byte 2] else [])
          else []) @
         (if l \<noteq> 0 then [Put_be32 0x000001b9] else []) @
         [Put_buffer (take (nat (?P - max 0 (?P - buffer_ptr stream))) (buffer stream))]"
  have "flush_ops s stream l preface = Put_buffer preface # ?body @ [Put_flush_packet]"
    by (simp add: flush_ops_def flush_tail_ops_def Let_def)
  moreover have "Put_flush_packet \<notin> set ?body"
    by (simp add: put_pts_def)
  ultimately show ?thesis by blast
qed

lemma sink_packets_flush_ops:
  "\<exists>body. sink_packets (flush_ops s stream l preface @ ops) =
      (Put_buffer preface # body) # sink_packets ops"
proof -
  from flush_ops_shape [of s stream l preface] obtain body where
    b: "flush_ops s stream l preface = Put_buffer preface # body @ [Put_flush_packet]"
      "Put_flush_packet \<notin> set body" by blast
  have "packets_from [] ((Put_buffer preface # body) @ Put_flush_packet # ops)
      = ([] @ Put_buffer preface # body) # packets_from [] ops"
    using b(2) by (intro packets_from_flush) simp
  then show ?thesis by (simp add: b(1) sink_packets_def)
qed

lemma flush_run_cadence:
  assumes "flush_run ctx calls = Some ctx'"
  shows "\<exists>ops. pb ctx' = pb ctx @ ops \<and>
     priv_data ctx' = (priv_data ctx)\<lparr>packet_number := packet_number (priv_data ctx) + of_nat (length calls)\<rparr> \<and>
     length (sink_packets ops) = length calls \<and>
     (\<forall>j<length calls.
        has_pack_header (sink_packets ops ! j) =
          (sint (packet_number (priv_data ctx) + of_nat j) mod pack_header_freq (priv_data ctx) = 0) \<and>
        has_system_header (sink_packets ops ! j) =
          (sint (packet_number (priv_data ctx) + of_nat j) mod pack_header_freq (priv_data ctx) = 0 \<and>
           sint (packet_number (priv_data ctx) + of_nat j) mod system_header_freq (priv_data ctx) = 0))"
  using assms
proof (induction calls arbitrary: ctx)
  case Nil
  then show ?case by (simp add: sink_packets_def)
next
  case (Cons call calls)
  obtain i l where call: "call = (i, l)" by (cases call)
  from Cons.prems call obtain c1 where
    c1: "flush_packet ctx i l = Some c1" and run: "flush_run c1 calls = Some ctx'"
    by (auto split: option.splits)
  from flush_packet_SomeD [OF c1] obtain preface where
    h: "flush_headers ctx (start_pts (streams ctx ! i)) = Some preface"
    and pb1: "pb c1 = pb ctx @ flush_ops (priv_data ctx) (streams ctx ! i) l preface"
    and s1: "priv_data c1 = (priv_data ctx)\<lparr>packet_number := packet_number (priv_data ctx) + 1\<rparr>"
    by auto
  from Cons.IH [OF run] obtain ops where
    ops: "pb ctx' = pb c1 @ ops"
    and s': "priv_data ctx' = (priv_data c1)\<lparr>packet_number := packet_number (priv_data c1) + of_nat (length calls)\<rparr>"
    and len: "length (sink_packets ops) = length calls"
    and ih: "\<And>j. j < length calls \<Longrightarrow>
        has_pack_header (sink_packets ops ! j) =
          (sint (packet_number (priv_data c1) + of_nat j) mod pack_header_freq (priv_data c1) = 0) \<and>
        has_system_header (sink_packets ops ! j) =
          (sint (packet_number (priv_data c1) + of_nat j) mod pack_header_freq (priv_data c1) = 0 \<and>
           sint (packet_number (priv_data c1) + of_nat j) mod system_header_freq (priv_data c1) = 0)"
    by blast
  let ?new = "flush_ops (priv_data ctx) (streams ctx ! i) l preface @ ops"
  from sink_packets_flush_ops [of "priv_data ctx" "streams ctx ! i" l preface ops]
  obtain body where sp: "sink_packets ?new = (Put_buffer preface # body) # sink_packets ops"
    by blast
  have "pb ctx' = pb ctx @ ?new" by (simp add: ops pb1)
  moreover have "priv_data ctx' = (priv_data ctx)
      \<lparr>packet_number := packet_number (priv_data ctx) + of_nat (length (call # calls))\<rparr>"
    by (simp add: s' s1)
  moreover have "length (sink_packets ?new) = length (call # calls)"
    by (simp add: sp len)
  moreover have "has_pack_header (sink_packets ?new ! j) =
          (sint (packet_number (priv_data ctx) + of_nat j) mod pack_header_freq (priv_data ctx) = 0) \<and>
        has_system_header (sink_packets ?new ! j) =
          (sint (packet_number (priv_data ctx) + of_nat j) mod pack_header_freq (priv_data ctx) = 0 \<and>
           sint (packet_number (priv_data ctx) + of_nat j) mod system_header_freq (priv_data ctx) = 0)"
    if "j < length (call # calls)" for j
  proof (cases j)
    case 0
    then show ?thesis using flush_headers_Some(2,3) [OF h] by (simp add: sp)
  next
    case (Suc k)
    with that have "k < length calls" by simp
    from ih [OF this] show ?thesis by (simp add: sp Suc s1 add.assoc)
  qed
  ultimately show ?case by blast
qed


lemma multiple_freq:
  "f dvd g \<Longrightarrow> (n mod f = 0 \<and> n mod g = 0) = (n mod g = (0::int))"
  by (auto simp add: mod_eq_0_iff_dvd dest: dvd_trans)

lemma flush_headers_total:
  "pack_header_freq (priv_data ctx) \<noteq> 0 \<Longrightarrow> system_header_freq (priv_data ctx) \<noteq> 0 \<Longrightarrow>
   flush_headers ctx timestamp \<noteq> None"
  by (simp add: flush_headers_def Let_def split: prod.splits)

lemma flush_packet_total:
  "i < length (streams ctx) \<Longrightarrow> pack_header_freq (priv_data ctx) \<noteq> 0 \<Longrightarrow>
   system_header_freq (priv_data ctx) \<noteq> 0 \<Longrightarrow> flush_packet ctx i l \<noteq> None"
  by (simp add: flush_packet_None flush_headers_total)

lemma flush_packet_preserves:
  assumes "flush_packet ctx i l = Some ctx'"
  shows "length (streams ctx') = length (streams ctx)"
    and "pack_header_freq (priv_data ctx') = pack_header_freq (priv_data ctx)"
    and "system_header_freq (priv_data ctx') = system_header_freq (priv_data ctx)"
  using flush_packet_SomeD [OF assms] by auto

lemma flush_run_total:
  "\<forall>c\<in>set calls. fst c < length (streams ctx) \<Longrightarrow> pack_header_freq (priv_data ctx) \<noteq> 0 \<Longrightarrow>
   system_header_freq (priv_data ctx) \<noteq> 0 \<Longrightarrow> flush_run ctx calls \<noteq> None"
proof (induction calls arbitrary: ctx)
  case Nil
  then show ?case by simp
next
  case (Cons call calls)
  obtain i l where call: "call = (i, l)" by (cases call)
  with Cons.prems have "flush_packet ctx i l \<noteq> None"
    by (intro flush_packet_total) simp_all
  then obtain c1 where c1: "flush_packet ctx i l = Some c1" by blast
  from Cons.prems flush_packet_preserves [OF c1] have "flush_run c1 calls \<noteq> None"
    by (intro Cons.IH) simp_all
  with c1 call show ?case by simp
qed

lemma sint_counter_no_wrap:
  assumes "sint n + int j \<le> 2147483647"
  shows "sint (n + of_nat j :: 32 word) = sint n + int j"
proof -
  have "n + of_nat j = (word_of_int (sint n + int j) :: 32 word)"
    by simp
  then have "sint (n + of_nat j) = signed_take_bit 31 (sint n + int j)"
    by (simp only: signed_of_int) simp
  moreover have "- 2147483648 \<le> sint n"
    using sint_ge [of n] by simp
  ultimately show ?thesis
    using assms by (simp add: signed_take_bit_int_eq_self)
qed

lemma longrun_run: "flush_run longrun_session [(0, 0), (0, 0), (0, 0)] \<noteq> None"
  by (rule flush_run_total) (simp_all add: longrun_session_def)

text \<open>
  C4, as the specification states it, fails once the 32-bit packet counter wraps. The
  session below has \<^verbatim>\<open>pack_header_freq = 3\<close> and has flushed 2147483647 packets, so its
  counter holds \<open>2147483647\<close>. The third of three further flushes is the session's packet
  of index \<open>2147483649 = 3 * 715827883\<close>, a multiple of the frequency, but the counter has
  wrapped to \<open>-2147483647\<close>, which 3 does not divide, and the packet carries no pack
  header.
\<close>

theorem pack_header_cadence_wraps:
  "flush_run longrun_session [(0, 0), (0, 0), (0, 0)] \<noteq> None \<and>
   pack_header_freq (priv_data longrun_session) = 3 \<and>
   sint (packet_number (priv_data longrun_session)) = 2147483647 \<and>
   (2147483647 + 2) mod 3 = (0::int) \<and>
   \<not> has_pack_header
       (sink_packets (pb (the (flush_run longrun_session [(0, 0), (0, 0), (0, 0)]))) ! 2)"
proof -
  let ?calls = "[(0, 0), (0, 0), (0::nat, 0::int)]"
  obtain c where run: "flush_run longrun_session ?calls = Some c"
    using longrun_run by blast
  have init: "pb longrun_session = []" "packet_number (priv_data longrun_session) = 2147483647"
    "pack_header_freq (priv_data longrun_session) = 3"
    by (simp_all add: longrun_session_def)
  from flush_run_cadence [OF run] have
    "has_pack_header (sink_packets (pb c) ! 2) = (sint (2147483647 + of_nat 2 :: 32 word) mod 3 = 0)"
    by (auto simp add: init)
  then have "\<not> has_pack_header (sink_packets (pb c) ! 2)"
    by simp
  then show ?thesis
    using longrun_run by (simp add: run init del: flush_run.simps)
qed

text \<open>
  C4, amended. A successful flush emits a pack header exactly when the session's packet
  number before the flush is divisible by \<^verbatim>\<open>pack_header_freq\<close>, and then also a system
  header exactly when it is divisible by \<^verbatim>\<open>system_header_freq\<close>; it increments the 32-bit
  packet number once, so that afterwards \<open>(packet_number - 1) mod pack_header_freq = 0\<close>
  for an emitted pack header (and likewise for a system header), the subtraction being
  that of C \<^verbatim>\<open>int\<close>s. Over a run of flushes the \<open>j\<close>-th committed unit carries a pack
  header exactly when the wrapped counter \<open>packet_number + j\<close> is a multiple of the
  frequency; as long as the counter does not pass \<open>2147483647\<close> this is the session-packet
  index itself, so that from a fresh session the pack headers are at the indices
  \<open>0, f, 2f, ...\<close>. A flush of an existing stream succeeds whenever neither frequency is
  zero.
\<close>

theorem header_cadence:
  "(flush_packet ctx i last_pkt = Some ctx1 \<longrightarrow>
      (let s = priv_data ctx; n = sint (packet_number s);
           pkt = drop (length (pb ctx)) (pb ctx1) in
         has_pack_header pkt = (n mod pack_header_freq s = 0) \<and>
         has_system_header pkt =
           (n mod pack_header_freq s = 0 \<and> n mod system_header_freq s = 0) \<and>
         (pack_header_freq s dvd system_header_freq s \<longrightarrow>
            has_system_header pkt = (n mod system_header_freq s = 0)) \<and>
         packet_number (priv_data ctx1) = packet_number s + 1 \<and>
         (n < 2147483647 \<longrightarrow> sint (packet_number (priv_data ctx1)) = n + 1) \<and>
         (has_pack_header pkt \<longrightarrow>
            sint (packet_number (priv_data ctx1) - 1) mod pack_header_freq (priv_data ctx1) = 0) \<and>
         (has_system_header pkt \<longrightarrow>
            sint (packet_number (priv_data ctx1) - 1) mod system_header_freq (priv_data ctx1)
              = 0))) \<and>
   (flush_run ctx calls = Some ctx2 \<longrightarrow>
      (let s = priv_data ctx; n = sint (packet_number s);
           pkts = sink_packets (drop (length (pb ctx)) (pb ctx2)) in
         length pkts = length calls \<and>
         (\<forall>j<length calls.
            has_pack_header (pkts ! j) =
              (sint (packet_number s + of_nat j) mod pack_header_freq s = 0) \<and>
            has_system_header (pkts ! j) =
              (sint (packet_number s + of_nat j) mod pack_header_freq s = 0 \<and>
               sint (packet_number s + of_nat j) mod system_header_freq s = 0)) \<and>
         (n + int (length calls) \<le> 2147483648 \<longrightarrow>
            (\<forall>j<length calls.
               has_pack_header (pkts ! j) = ((n + int j) mod pack_header_freq s = 0) \<and>
               has_system_header (pkts ! j) =
                 ((n + int j) mod pack_header_freq s = 0 \<and>
                  (n + int j) mod system_header_freq s = 0))))) \<and>
   (i < length (streams ctx) \<and> pack_header_freq (priv_data ctx) \<noteq> 0 \<and>
    system_header_freq (priv_data ctx) \<noteq> 0 \<longrightarrow> flush_packet ctx i last_pkt \<noteq> None)"
proof (intro conjI impI)
  assume "i < length (streams ctx) \<and> pack_header_freq (priv_data ctx) \<noteq> 0 \<and>
    system_header_freq (priv_data ctx) \<noteq> 0"
  then show "flush_packet ctx i last_pkt \<noteq> None"
    by (simp add: flush_packet_total)
next
  assume a: "flush_packet ctx i last_pkt = Some ctx1"
  from flush_packet_SomeD [OF a] obtain preface where
    h: "flush_headers ctx (start_pts (streams ctx ! i)) = Some preface"
    and pb1: "pb ctx1 = pb ctx @ flush_ops (priv_data ctx) (streams ctx ! i) last_pkt preface"
    and s1: "priv_data ctx1 = (priv_data ctx)\<lparr>packet_number := packet_number (priv_data ctx) + 1\<rparr>"
    by auto
  from flush_ops_shape [of "priv_data ctx" "streams ctx ! i" last_pkt preface] obtain body where
    b: "flush_ops (priv_data ctx) (streams ctx ! i) last_pkt preface
          = Put_buffer preface # body @ [Put_flush_packet]" by blast
  have next_counter: "sint (packet_number (priv_data ctx) + 1) = sint (packet_number (priv_data ctx)) + 1"
    if "sint (packet_number (priv_data ctx)) < 2147483647"
    using sint_counter_no_wrap [of "packet_number (priv_data ctx)" 1] that by simp
  show "let s = priv_data ctx; n = sint (packet_number s);
           pkt = drop (length (pb ctx)) (pb ctx1) in
         has_pack_header pkt = (n mod pack_header_freq s = 0) \<and>
         has_system_header pkt =
           (n mod pack_header_freq s = 0 \<and> n mod system_header_freq s = 0) \<and>
         (pack_header_freq s dvd system_header_freq s \<longrightarrow>
            has_system_header pkt = (n mod system_header_freq s = 0)) \<and>
         packet_number (priv_data ctx1) = packet_number s + 1 \<and>
         (n < 2147483647 \<longrightarrow> sint (packet_number (priv_data ctx1)) = n + 1) \<and>
         (has_pack_header pkt \<longrightarrow>
            sint (packet_number (priv_data ctx1) - 1) mod pack_header_freq (priv_data ctx1) = 0) \<and>
         (has_system_header pkt \<longrightarrow>
            sint (packet_number (priv_data ctx1) - 1) mod system_header_freq (priv_data ctx1)
              = 0)"
    using flush_headers_Some(2,3) [OF h] next_counter
    by (simp add: Let_def pb1 b s1 multiple_freq cong: conj_cong)
next
  assume a: "flush_run ctx calls = Some ctx2"
  from flush_run_cadence [OF a] obtain ops where
    ops: "pb ctx2 = pb ctx @ ops" "length (sink_packets ops) = length calls"
    and each: "\<And>j. j < length calls \<Longrightarrow>
        has_pack_header (sink_packets ops ! j) =
          (sint (packet_number (priv_data ctx) + of_nat j) mod pack_header_freq (priv_data ctx) = 0) \<and>
        has_system_header (sink_packets ops ! j) =
          (sint (packet_number (priv_data ctx) + of_nat j) mod pack_header_freq (priv_data ctx) = 0 \<and>
           sint (packet_number (priv_data ctx) + of_nat j) mod system_header_freq (priv_data ctx) = 0)"
    by blast
  have no_wrap: "sint (packet_number (priv_data ctx) + of_nat j)
      = sint (packet_number (priv_data ctx)) + int j"
    if "sint (packet_number (priv_data ctx)) + int (length calls) \<le> 2147483648"
      and "j < length calls" for j
    using that by (intro sint_counter_no_wrap) simp
  show "let s = priv_data ctx; n = sint (packet_number s);
           pkts = sink_packets (drop (length (pb ctx)) (pb ctx2)) in
         length pkts = length calls \<and>
         (\<forall>j<length calls.
            has_pack_header (pkts ! j) =
              (sint (packet_number s + of_nat j) mod pack_header_freq s = 0) \<and>
            has_system_header (pkts ! j) =
              (sint (packet_number s + of_nat j) mod pack_header_freq s = 0 \<and>
               sint (packet_number s + of_nat j) mod system_header_freq s = 0)) \<and>
         (n + int (length calls) \<le> 2147483648 \<longrightarrow>
            (\<forall>j<length calls.
               has_pack_header (pkts ! j) = ((n + int j) mod pack_header_freq s = 0) \<and>
               has_system_header (pkts ! j) =
                 ((n + int j) mod pack_header_freq s = 0 \<and>
                  (n + int j) mod system_header_freq s = 0)))"
    using each no_wrap by (simp add: Let_def ops)
qed

lemma lowrate_run: "flush_run lowrate_session [(0, 0), (0, 0), (0, 0)] \<noteq> None"
  by (rule flush_run_total) (simp_all add: lowrate_session_def)

lemma lowrate_flush: "flush_packet lowrate_session 0 0 \<noteq> None"
  by (rule flush_packet_total) (simp_all add: lowrate_session_def)

theorem header_cadence_witness:
  "flush_packet lowrate_session 0 0 \<noteq> None \<and>
   has_pack_header (pb (the (flush_packet lowrate_session 0 0))) \<and>
   packet_number (priv_data (the (flush_packet lowrate_session 0 0))) = 1 \<and>
   flush_run lowrate_session [(0, 0), (0, 0), (0, 0)] \<noteq> None \<and>
   map has_pack_header
     (sink_packets (pb (the (flush_run lowrate_session [(0, 0), (0, 0), (0, 0)]))))
     = [True, False, True] \<and>
   map has_system_header
     (sink_packets (pb (the (flush_run lowrate_session [(0, 0), (0, 0), (0, 0)]))))
     = [True, False, False]"
proof -
  let ?calls = "[(0, 0), (0, 0), (0::nat, 0::int)]"
  let ?pkts = "sink_packets (pb (the (flush_run lowrate_session ?calls)))"
  have init: "pb lowrate_session = []" "packet_number (priv_data lowrate_session) = 0"
    "pack_header_freq (priv_data lowrate_session) = 2"
    "system_header_freq (priv_data lowrate_session) = 10"
    by (simp_all add: lowrate_session_def)
  have one: "flush_packet lowrate_session 0 0 = Some (the (flush_packet lowrate_session 0 0))"
    using lowrate_flush by simp
  have run: "flush_run lowrate_session ?calls = Some (the (flush_run lowrate_session ?calls))"
    using lowrate_run by simp
  note c = header_cadence [of lowrate_session 0 0 "the (flush_packet lowrate_session 0 0)"
      ?calls "the (flush_run lowrate_session ?calls)"]
  from c one have first: "has_pack_header (pb (the (flush_packet lowrate_session 0 0)))"
    "packet_number (priv_data (the (flush_packet lowrate_session 0 0))) = 1"
    by (simp_all add: init Let_def)
  from c run have len: "length ?pkts = 3"
    and each: "\<And>j. j < 3 \<Longrightarrow>
        has_pack_header (?pkts ! j) = (sint (of_nat j :: 32 word) mod 2 = 0) \<and>
        has_system_header (?pkts ! j) =
          (sint (of_nat j :: 32 word) mod 2 = 0 \<and> sint (of_nat j :: 32 word) mod 10 = 0)"
    by (simp_all add: init Let_def)
  from len obtain a b c where pk: "?pkts = [a, b, c]"
    by (auto simp add: length_Suc_conv numeral_3_eq_3)
  from each [of 0] each [of 1] each [of 2] first lowrate_flush lowrate_run show ?thesis
    unfolding pk by simp
qed

subsection \<open>The end code\<close>

lemma packets_from_append_flush:
  "packets_from cur (xs @ Put_flush_packet # ys) =
     packets_from cur (xs @ [Put_flush_packet]) @ packets_from [] ys"
proof (induction xs arbitrary: cur)
  case Nil
  then show ?case by simp
next
  case (Cons x xs)
  then show ?case by (cases x) simp_all
qed

lemma sink_packets_append:
  assumes "committed xs"
  shows "sink_packets (xs @ ys) = sink_packets xs @ sink_packets ys"
proof (cases "xs = []")
  case True
  then show ?thesis by (simp add: sink_packets_def)
next
  case False
  with assms have "xs = butlast xs @ [Put_flush_packet]"
    by (metis committed_def append_butlast_last_id)
  then obtain zs where zs: "xs = zs @ [Put_flush_packet]" ..
  show ?thesis
    using packets_from_append_flush [of "[]" zs ys] by (simp add: zs sink_packets_def)
qed

lemma committed_flush_ops: "committed (flush_ops s stream l preface)"
  using flush_ops_shape [of s stream l preface] by (auto simp add: committed_def)

lemma committed_append: "committed xs \<Longrightarrow> committed ys \<Longrightarrow> committed (xs @ ys)"
  by (cases "ys = []") (auto simp add: committed_def)

lemma end_code_in_packet:
  "\<exists>pkt. sink_packets (flush_ops s stream l preface) = [pkt] \<and>
     count_list pkt (Put_be32 0x000001b9) = (if l \<noteq> 0 then 1 else 0)"
proof -
  from flush_ops_shape [of s stream l preface] obtain body where
    b: "flush_ops s stream l preface = Put_buffer preface # body @ [Put_flush_packet]"
      "Put_flush_packet \<notin> set body" by blast
  have "packets_from [] ((Put_buffer preface # body) @ Put_flush_packet # [])
      = ([] @ Put_buffer preface # body) # packets_from [] []"
    using b(2) by (intro packets_from_flush) simp
  then have "sink_packets (flush_ops s stream l preface) = [Put_buffer preface # body]"
    by (simp add: b(1) sink_packets_def)
  moreover have "count_list (Put_buffer preface # body) (Put_be32 0x000001b9)
      = count_list (flush_ops s stream l preface) (Put_be32 0x000001b9)"
    by (simp add: b(1))
  ultimately show ?thesis by (simp add: count_end_code)
qed

lemma mpeg_mux_end_loop_append:
  "mpeg_mux_end_loop ctx (xs @ ys) =
     (case mpeg_mux_end_loop ctx xs of None \<Rightarrow> None | Some c \<Rightarrow> mpeg_mux_end_loop c ys)"
  by (induction xs arbitrary: ctx) (auto split: option.splits)

lemma mpeg_mux_end_loop_inner:
  assumes "mpeg_mux_end_loop ctx idx = Some ctx'"
    and "\<forall>i\<in>set idx. int i \<noteq> nb_streams ctx - 1"
  shows "\<exists>ops. pb ctx' = pb ctx @ ops \<and> committed ops \<and>
      count_list ops (Put_be32 0x000001b9) = 0 \<and>
      length (streams ctx') = length (streams ctx) \<and>
      (\<forall>j. j \<notin> set idx \<longrightarrow> streams ctx' ! j = streams ctx ! j)"
  using assms
proof (induction idx arbitrary: ctx)
  case Nil
  then show ?case by (simp add: committed_def)
next
  case (Cons i idx)
  show ?case
  proof (cases "buffer_ptr (streams ctx ! i) > 0")
    case False
    with Cons.prems have "mpeg_mux_end_loop ctx idx = Some ctx'" by simp
    from Cons.IH [OF this] Cons.prems(2) show ?thesis by auto
  next
    case True
    with Cons.prems obtain c1 where c1: "flush_packet ctx i 0 = Some c1"
      and run: "mpeg_mux_end_loop c1 idx = Some ctx'"
      by (auto split: option.splits)
    from flush_packet_SomeD [OF c1] obtain preface where
      pb1: "pb c1 = pb ctx @ flush_ops (priv_data ctx) (streams ctx ! i) 0 preface"
      and len1: "length (streams c1) = length (streams ctx)"
      and same1: "\<And>j. j \<noteq> i \<Longrightarrow> streams c1 ! j = streams ctx ! j"
      by auto
    have "\<forall>i\<in>set idx. int i \<noteq> nb_streams c1 - 1"
      using Cons.prems(2) len1 by (simp add: nb_streams_def)
    from Cons.IH [OF run this] obtain ops where
      ops: "pb ctx' = pb c1 @ ops" "committed ops" "count_list ops (Put_be32 0x000001b9) = 0"
        "length (streams ctx') = length (streams c1)"
        "\<And>j. j \<notin> set idx \<Longrightarrow> streams ctx' ! j = streams c1 ! j"
      by blast
    let ?new = "flush_ops (priv_data ctx) (streams ctx ! i) 0 preface @ ops"
    have "pb ctx' = pb ctx @ ?new" by (simp add: ops(1) pb1)
    moreover have "committed ?new"
      using ops(2) committed_flush_ops by (intro committed_append)
    moreover have "count_list ?new (Put_be32 0x000001b9) = 0"
      by (simp add: ops(3) count_end_code)
    moreover have "length (streams ctx') = length (streams ctx)"
      by (simp add: ops(4) len1)
    moreover have "\<forall>j. j \<notin> set (i # idx) \<longrightarrow> streams ctx' ! j = streams ctx ! j"
      using ops(5) same1 by simp
    ultimately show ?thesis by blast
  qed
qed


lemma mpeg_mux_end_loop_total:
  "\<forall>i\<in>set idx. i < length (streams ctx) \<Longrightarrow> pack_header_freq (priv_data ctx) \<noteq> 0 \<Longrightarrow>
   system_header_freq (priv_data ctx) \<noteq> 0 \<Longrightarrow> mpeg_mux_end_loop ctx idx \<noteq> None"
proof (induction idx arbitrary: ctx)
  case Nil
  then show ?case by simp
next
  case (Cons i idx)
  have "flush_packet ctx i l \<noteq> None" for l
    using Cons.prems by (intro flush_packet_total) simp_all
  then obtain c0 c1 where c: "flush_packet ctx i 0 = Some c0" "flush_packet ctx i 1 = Some c1"
    by blast
  from Cons.prems flush_packet_preserves [OF c(1)] have "mpeg_mux_end_loop c0 idx \<noteq> None"
    by (intro Cons.IH) simp_all
  moreover from Cons.prems flush_packet_preserves [OF c(2)] have "mpeg_mux_end_loop c1 idx \<noteq> None"
    by (intro Cons.IH) simp_all
  moreover from Cons.prems have "mpeg_mux_end_loop ctx idx \<noteq> None"
    by (intro Cons.IH) simp_all
  ultimately show ?case using c by simp
qed

lemma mpeg_mux_end_codes:
  assumes "mpeg_mux_end ctx = Some (r, ctx')"
  shows "r = 0 \<and>
    (let new = drop (length (pb ctx)) (pb ctx') in
       if streams ctx \<noteq> [] \<and> 0 < buffer_ptr (last (streams ctx))
       then count_list new (Put_be32 0x000001b9) = 1 \<and> sink_packets new \<noteq> [] \<and>
            count_list (last (sink_packets new)) (Put_be32 0x000001b9) = 1
       else count_list new (Put_be32 0x000001b9) = 0)"
proof (cases "streams ctx = []")
  case True
  with assms show ?thesis by (auto simp add: mpeg_mux_end_def)
next
  case False
  define n where "n = length (streams ctx) - 1"
  from False have idx: "[0..<length (streams ctx)] = [0..<n] @ [n]"
    and lst: "last (streams ctx) = streams ctx ! n"
    by (simp_all add: n_def last_conv_nth) (metis Suc_pred length_greater_0_conv upt_Suc_append zero_le)
  from assms obtain c1 where r: "r = 0"
    and c1: "mpeg_mux_end_loop ctx [0..<n] = Some c1"
    and c2: "mpeg_mux_end_loop c1 [n] = Some ctx'"
    by (auto simp add: mpeg_mux_end_def idx mpeg_mux_end_loop_append split: option.splits)
  have "\<forall>i\<in>set [0..<n]. int i \<noteq> nb_streams ctx - 1"
    using False by (cases "streams ctx") (auto simp add: n_def nb_streams_def)
  from mpeg_mux_end_loop_inner [OF c1 this] obtain ops where
    ops: "pb c1 = pb ctx @ ops" "committed ops" "count_list ops (Put_be32 0x000001b9) = 0"
      "length (streams c1) = length (streams ctx)" "streams c1 ! n = streams ctx ! n"
    by auto
  have nl: "int n = nb_streams c1 - 1"
    using False by (cases "streams ctx") (simp_all add: n_def nb_streams_def ops(4))
  show ?thesis
  proof (cases "0 < buffer_ptr (streams ctx ! n)")
    case no: False
    with c2 ops(5) have "ctx' = c1" by simp
    with no False show ?thesis by (simp add: r lst ops Let_def)
  next
    case yes: True
    with c2 ops(5) nl have fl: "flush_packet c1 n 1 = Some ctx'"
      by (simp split: option.splits)
    from flush_packet_SomeD [OF fl] obtain preface where
      pb2: "pb ctx' = pb c1 @ flush_ops (priv_data c1) (streams c1 ! n) 1 preface"
      by auto
    let ?F = "flush_ops (priv_data c1) (streams c1 ! n) 1 preface"
    from end_code_in_packet [of "priv_data c1" "streams c1 ! n" 1 preface] obtain pkt where
      pkt: "sink_packets ?F = [pkt]" "count_list pkt (Put_be32 0x000001b9) = 1"
      by auto
    have new: "drop (length (pb ctx)) (pb ctx') = ops @ ?F"
      by (simp add: pb2 ops(1))
    have "count_list (ops @ ?F) (Put_be32 0x000001b9) = 1"
      by (simp add: ops(3) count_end_code)
    moreover have "sink_packets (ops @ ?F) = sink_packets ops @ [pkt]"
      by (simp add: sink_packets_append [OF ops(2)] pkt(1))
    ultimately show ?thesis
      using yes False by (simp add: r lst new Let_def pkt(2))
  qed
qed


lemma mpeg_mux_end_total:
  "pack_header_freq (priv_data ctx) \<noteq> 0 \<Longrightarrow> system_header_freq (priv_data ctx) \<noteq> 0 \<Longrightarrow>
   mpeg_mux_end ctx \<noteq> None"
  using mpeg_mux_end_loop_total [of "[0..<length (streams ctx)]" ctx]
  by (auto simp add: mpeg_mux_end_def split: option.splits)

lemma av_session_fields:
  "pack_header_freq (priv_data (av_session v a)) = 167"
  "system_header_freq (priv_data (av_session v a)) = 835"
  "pb (av_session v a) = []"
  "streams (av_session v a) \<noteq> []"
  "buffer_ptr (last (streams (av_session v a))) = a"
  "buffer_ptr (streams (av_session v a) ! 0) = v"
  by (simp_all add: av_session_def)

text \<open>
  C5, as the specification states it, fails. In the session below the video stream
  (index 0) has 100 bytes pending and the audio stream, which is the last one, has none:
  \<^verbatim>\<open>mpeg_mux_end\<close> flushes the video stream with \<^verbatim>\<open>last_pkt = 0\<close>, skips the audio stream,
  and writes no end code although a stream had residual data.
\<close>

theorem end_code_missing:
  "0 < buffer_ptr (streams (av_session 100 0) ! 0) \<and>
   mpeg_mux_end (av_session 100 0) \<noteq> None \<and>
   count_list (pb (snd (the (mpeg_mux_end (av_session 100 0))))) (Put_be32 0x000001b9) = 0"
proof -
  have ok: "mpeg_mux_end (av_session 100 0) \<noteq> None"
    by (rule mpeg_mux_end_total) (simp_all add: av_session_fields)
  then obtain r c where rc: "mpeg_mux_end (av_session 100 0) = Some (r, c)" by auto
  from mpeg_mux_end_codes [OF rc] show ?thesis
    by (simp add: rc av_session_fields Let_def)
qed

text \<open>
  C5, amended. \<^verbatim>\<open>mpeg_mux_end\<close> returns 0 and writes the end code \<open>0x000001B9\<close> exactly
  once, inside the last unit it commits, when the stream of the highest index has
  residual data (\<open>buffer_ptr > 0\<close>); otherwise, and so in particular when no stream has
  residual data, it writes no end code. It succeeds whenever neither header frequency is
  zero.
\<close>

theorem mpeg_mux_end_end_code:
  "(mpeg_mux_end ctx = Some (r, ctx') \<longrightarrow>
      r = 0 \<and>
      (let new = drop (length (pb ctx)) (pb ctx') in
         if streams ctx \<noteq> [] \<and> 0 < buffer_ptr (last (streams ctx))
         then count_list new (Put_be32 0x000001b9) = 1 \<and> sink_packets new \<noteq> [] \<and>
              count_list (last (sink_packets new)) (Put_be32 0x000001b9) = 1
         else count_list new (Put_be32 0x000001b9) = 0)) \<and>
   (pack_header_freq (priv_data ctx) \<noteq> 0 \<and> system_header_freq (priv_data ctx) \<noteq> 0 \<longrightarrow>
      mpeg_mux_end ctx \<noteq> None)"
  using mpeg_mux_end_codes [of ctx r ctx'] mpeg_mux_end_total [of ctx] by blast

theorem mpeg_mux_end_end_code_witness:
  "mpeg_mux_end (av_session 100 50) \<noteq> None \<and>
   count_list (pb (snd (the (mpeg_mux_end (av_session 100 50))))) (Put_be32 0x000001b9) = 1 \<and>
   count_list (last (sink_packets (pb (snd (the (mpeg_mux_end (av_session 100 50))))))) 
     (Put_be32 0x000001b9) = 1 \<and>
   mpeg_mux_end (av_session 0 0) \<noteq> None \<and>
   count_list (pb (snd (the (mpeg_mux_end (av_session 0 0))))) (Put_be32 0x000001b9) = 0"
proof -
  have ok: "mpeg_mux_end (av_session v a) \<noteq> None" for v a
    using mpeg_mux_end_end_code [of "av_session v a"] by (simp add: av_session_fields)
  obtain r1 c1 where 1: "mpeg_mux_end (av_session 100 50) = Some (r1, c1)"
    using ok [of 100 50] by auto
  obtain r2 c2 where 2: "mpeg_mux_end (av_session 0 0) = Some (r2, c2)"
    using ok [of 0 0] by auto
  from mpeg_mux_end_end_code [of "av_session 100 50" r1 c1] 1
    mpeg_mux_end_end_code [of "av_session 0 0" r2 c2] 2
  show ?thesis
    by (simp add: av_session_fields Let_def)
qed

subsection \<open>Encoding and decoding a timestamp\<close>

lemma be16_bytes:
  "push_bit 8 (uint (word_of_int (drop_bit 8 v) :: byte)) OR uint (word_of_int v :: byte)
     = take_bit 16 v"
  by (rule bit_eqI) (auto simp add: bit_simps)

lemma bit_shifted: "bit (push_bit 1 x) (Suc n) = bit (x::int) n"
  by (simp add: bit_Suc)

lemma marker_removed: "drop_bit 1 (take_bit 16 (push_bit 1 x OR 1)) = take_bit 15 (x::int)"
proof (rule bit_eqI)
  fix n :: nat
  show "bit (drop_bit 1 (take_bit 16 (push_bit 1 x OR 1))) n = bit (take_bit 15 x) n"
    using bit_shifted [of x n]
    by (simp add: bit_drop_bit_eq bit_take_bit_iff bit_or_iff bit_1_iff del: push_bit_Suc push_bit_of_Suc_0 bit_shifted) 
qed

lemma first_byte_bits:
  "drop_bit 1 (uint (word_of_int (push_bit 4 0x02 OR push_bit 1 (a AND 0x07) OR 1) :: byte)) AND 0x07
     = take_bit 3 a"
proof (rule bit_eqI)
  fix n :: nat
  have "bit ((2::int) ^ 4) n = (n = 4)" by (simp only: bit_exp_iff) simp
  then have e: "bit (16::int) n = (n = 4)" by simp
  show "bit (drop_bit 1 (uint (word_of_int (push_bit 4 0x02 OR push_bit 1 (a AND 0x07) OR 1) :: byte)) AND 0x07) n
     = bit (take_bit 3 a) n"
    unfolding masks
    by (auto simp add: bit_simps e simp del: push_bit_Suc push_bit_of_Suc_0)
qed

lemma pts_parts:
  "push_bit 30 (take_bit 3 (drop_bit 30 t)) OR push_bit 15 (take_bit 15 (drop_bit 15 t AND 0x7fff))
     OR take_bit 15 (t AND 0x7fff) = take_bit 33 (t::int)"
proof (rule bit_eqI)
  fix n :: nat
  consider "n < 15" | "15 \<le> n" "n < 30" | "30 \<le> n" "n < 33" | "33 \<le> n" by linarith
  then show "bit (push_bit 30 (take_bit 3 (drop_bit 30 t)) OR push_bit 15 (take_bit 15 (drop_bit 15 t AND 0x7fff))
     OR take_bit 15 (t AND 0x7fff)) n = bit (take_bit 33 t) n"
    unfolding masks
    by cases (auto simp add: bit_simps)
qed


lemma get_pts_given:
  "0 \<le> a \<Longrightarrow> get_pts (b1 # b2 # c1 # c2 # rest) a = (pts_of_bytes a b1 b2 c1 c2, rest)"
  unfolding get_pts_def get_be16_def get_byte_def pts_of_bytes_def Let_def
  by (simp add: or.assoc del: push_bit_Suc push_bit_of_Suc_0 drop_bit_Suc drop_bit_of_Suc_0)

lemma get_pts_read:
  "get_pts (a # b1 # b2 # c1 # c2 # rest) (-1) = (pts_of_bytes (uint a) b1 b2 c1 c2, rest)"
  unfolding get_pts_def get_be16_def get_byte_def pts_of_bytes_def Let_def
  by (simp add: or.assoc del: push_bit_Suc push_bit_of_Suc_0 drop_bit_Suc drop_bit_of_Suc_0)

lemma pts_of_put_pts:
  "pts_of_bytes (uint (word_of_int (push_bit 4 0x02 OR push_bit 1 (drop_bit 30 t AND 0x07) OR 1) :: byte))
     (word_of_int (drop_bit 8 (take_bit 16 (push_bit 1 (drop_bit 15 t AND 0x7fff) OR 1))))
     (word_of_int (take_bit 16 (push_bit 1 (drop_bit 15 t AND 0x7fff) OR 1)))
     (word_of_int (drop_bit 8 (take_bit 16 (push_bit 1 (t AND 0x7fff) OR 1))))
     (word_of_int (take_bit 16 (push_bit 1 (t AND 0x7fff) OR 1)))
   = t mod 2 ^ 33"
  unfolding pts_of_bytes_def be16_bytes
  unfolding take_bit_take_bit min.idem
  unfolding marker_removed first_byte_bits
  unfolding pts_parts
  by (simp only: take_bit_eq_mod)

lemma pts_example:
  "sink_bytes (put_pts 0x123456789) = [0x29, 0x8d, 0x15, 0xcf, 0x13] \<and>
   get_pts [0x29, 0x8d, 0x15, 0xcf, 0x13, 0xaa] (-1) = (0x123456789, [0xaa])"
  by code_simp

text \<open>
  C3. Decoding with \<^verbatim>\<open>get_pts\<close> the five bytes that \<^verbatim>\<open>flush_packet\<close> writes for a
  timestamp \<open>t\<close> yields \<open>t mod 2^33\<close> and leaves the source just behind them, both when
  \<^verbatim>\<open>get_pts\<close> reads all five bytes itself (\<open>c = -1\<close>, the MPEG-2 path) and when the
  demultiplexer has already read the first byte and passes it as \<open>c\<close> (the MPEG-1 path).
  This holds for every non-negative timestamp, and for the negative ones as well.
\<close>

theorem pts_roundtrip:
  "get_pts (sink_bytes (put_pts t) @ rest) (-1) = (t mod 2 ^ 33, rest) \<and>
   (case sink_bytes (put_pts t) of
      [] \<Rightarrow> False
    | c # bytes \<Rightarrow> get_pts (bytes @ rest) (uint c) = (t mod 2 ^ 33, rest))"
proof -
  have "sink_bytes (put_pts t) =
     [word_of_int (push_bit 4 0x02 OR push_bit 1 (drop_bit 30 t AND 0x07) OR 1),
      word_of_int (drop_bit 8 (take_bit 16 (push_bit 1 (drop_bit 15 t AND 0x7fff) OR 1))),
      word_of_int (take_bit 16 (push_bit 1 (drop_bit 15 t AND 0x7fff) OR 1)),
      word_of_int (drop_bit 8 (take_bit 16 (push_bit 1 (t AND 0x7fff) OR 1))),
      word_of_int (take_bit 16 (push_bit 1 (t AND 0x7fff) OR 1))]"
    unfolding put_pts_def sink_bytes_def by simp
  then show ?thesis
    using pts_of_put_pts [of t] by (simp only: get_pts_read get_pts_given append_Cons append_Nil list.case uint_nonnegative simp_thms)
qed

subsection \<open>The probe\<close>

lemma byte_bit_high: "8 \<le> n \<Longrightarrow> \<not> bit (c::byte) n"
  using bit_imp_le_length [of c n] by auto

lemma shifted_low_bytes:
  "low_bytes (push_bit 8 code OR ucast (c::byte)) = [ucast (drop_bit 8 code), ucast code, c]"
  unfolding low_bytes_def
  by (auto intro!: bit_word_eqI simp add: bit_simps byte_bit_high)

lemma prefix_mask: "(0xffffff00 :: 32 word) = NOT (mask 8)"
  by (simp add: mask_eq_exp_minus_1)

lemma masked_shift:
  "(push_bit 8 code OR ucast (c::byte)) AND NOT (mask 8) = (push_bit 8 code :: 32 word)"
  by (auto intro!: bit_word_eqI simp add: bit_simps byte_bit_high)

lemma shift_back: "drop_bit 8 (push_bit 8 code) = take_bit 24 (code :: 32 word)"
  by (auto intro!: bit_word_eqI simp add: bit_simps)

lemma shift_low: "push_bit 8 (take_bit 24 code) = push_bit 8 (code :: 32 word)"
  by (auto intro!: bit_word_eqI simp add: bit_simps)

lemma low_bytes_take_bit: "low_bytes (take_bit 24 code) = low_bytes code"
  unfolding low_bytes_def
  by (auto intro!: bit_word_eqI simp add: bit_simps)

lemma take_bit_low_bytes:
  "take_bit 24 (code :: 32 word) =
     push_bit 16 (ucast (ucast (drop_bit 16 code) :: byte)) OR
     push_bit 8 (ucast (ucast (drop_bit 8 code) :: byte)) OR
     ucast (ucast code :: byte)"
proof (rule bit_word_eqI)
  fix n :: nat
  assume "n < LENGTH(32)"
  consider "n < 8" | "8 \<le> n" "n < 16" | "16 \<le> n" "n < 24" | "24 \<le> n" by linarith
  then show "bit (take_bit 24 code) n =
     bit (push_bit 16 (ucast (ucast (drop_bit 16 code) :: byte)) OR
     push_bit 8 (ucast (ucast (drop_bit 8 code) :: byte)) OR
     (ucast (ucast code :: byte) :: 32 word)) n"
    using \<open>n < LENGTH(32)\<close> by cases (auto simp add: bit_simps)
qed

lemma prefix_low: "(take_bit 24 code = 1) = (low_bytes code = [0, 0, 1])"
proof
  assume "take_bit 24 code = 1"
  then have "low_bytes code = low_bytes 1"
    using low_bytes_take_bit [of code] by simp
  then show "low_bytes code = [0, 0, 1]" by (simp add: low_bytes_def)
next
  assume "low_bytes code = [0, 0, 1]"
  then have "(ucast (drop_bit 16 code) :: byte) = 0" "(ucast (drop_bit 8 code) :: byte) = 0"
    "(ucast code :: byte) = 1"
    by (simp_all add: low_bytes_def)
  then show "take_bit 24 code = 1"
    unfolding take_bit_low_bytes [of code] by simp
qed

lemma prefix_shift: "(low_bytes code = [0, 0, 1]) = (push_bit 8 code = (0x100 :: 32 word))"
proof -
  have "(push_bit 8 code = (0x100 :: 32 word)) = (take_bit 24 code = 1)"
  proof
    assume "push_bit 8 code = (0x100 :: 32 word)"
    then have "drop_bit 8 (push_bit 8 code) = drop_bit 8 (0x100 :: 32 word)" by simp
    then show "take_bit 24 code = 1" by (simp add: shift_back)
  next
    assume "take_bit 24 code = 1"
    then have "push_bit 8 (take_bit 24 code) = (push_bit 8 1 :: 32 word)" by simp
    then show "push_bit 8 code = (0x100 :: 32 word)" by (simp add: shift_low)
  qed
  then show ?thesis by (simp add: prefix_low)
qed

lemma prefix_test:
  "((push_bit 8 code OR ucast (c::byte)) AND 0xffffff00 = (0x100 :: 32 word)) =
     (low_bytes code = [0, 0, 1])"
  unfolding prefix_mask masked_shift prefix_shift ..



lemma shifted_disjoint: "push_bit 8 code AND ucast (c::byte) = (0 :: 32 word)"
  by (auto intro!: bit_word_eqI simp add: bit_simps byte_bit_high)

lemma shifted_or: "push_bit 8 code OR ucast (c::byte) = (push_bit 8 code + ucast c :: 32 word)"
  using shifted_disjoint [of code c] by (simp only: disjunctive_add_eq_or)

lemma byte_range: "uint (c::byte) < 256"
  using uint_bounded [of c] by simp

lemma uint_ucast_byte: "uint (ucast (c::byte) :: 32 word) = uint c"
proof -
  have "uint c < 2 ^ 32" using byte_range [of c] by simp
  then show ?thesis
    by (simp add: unsigned_ucast_eq take_bit_int_eq_self)
qed

lemma start_code_value:
  assumes "push_bit 8 code = (0x100 :: 32 word)"
  shows "uint (push_bit 8 code OR ucast (c :: byte)) = 256 + uint c"
    and "sint (push_bit 8 code OR ucast (c :: byte)) = 256 + uint c"
proof -
  let ?x = "push_bit 8 code OR (ucast c :: 32 word)"
  have "?x = push_bit 8 code + ucast c"
    by (rule shifted_or)
  then have "?x = 0x100 + ucast c"
    by (simp only: assms)
  then have "uint ?x = (256 + uint c) mod 2 ^ 32"
    by (simp add: uint_word_ariths uint_ucast_byte)
  then show u: "uint ?x = 256 + uint c"
    using byte_range [of c] by simp
  have "sint ?x = signed_take_bit 31 (uint ?x)" by (simp add: sint_uint)
  also have "\<dots> = uint ?x"
    unfolding u using byte_range [of c] by (intro signed_take_bit_int_eq_self) simp_all
  finally show "sint ?x = 256 + uint c" by (simp add: u)
qed


lemma ps_test:
  assumes "push_bit 8 code = (0x100 :: 32 word)"
  shows "(let x = push_bit 8 code OR ucast (c :: byte) in
            x = 0x000001ba \<or> x = 0x000001bb \<or>
            (0x1e0 \<le> sint x \<and> sint x \<le> 0x1ef) \<or>
            (0x1c0 \<le> sint x \<and> sint x \<le> 0x1df) \<or>
            x = 0x1bf \<or> x = 0x1bc \<or> x = 0x1bd \<or> x = 0x1be) = is_ps_code c"
proof -
  have eq: "(push_bit 8 code OR (ucast c :: 32 word) = k) = (256 + uint c = uint k)" for k
    using start_code_value(1) [OF assms, of c] by (simp add: word_uint_eq_iff)
  have b: "(c = k) = (uint c = uint k)" for k
    by (simp add: word_uint_eq_iff)
  show ?thesis
    unfolding Let_def eq start_code_value(2) [OF assms] is_ps_code_def b word_le_def
    by simp linarith
qed




lemma probe_loop_window:
  "mpegps_probe_loop score_max code bs =
     (case first_start_code (low_bytes code @ bs) of
        None \<Rightarrow> 0
      | Some x \<Rightarrow> if is_ps_code x then score_max - 1 else 0)"
proof (induction bs arbitrary: code)
  case Nil
  show ?case by (simp add: low_bytes_def)
next
  case (Cons c rest)
  let ?code = "push_bit 8 code OR (ucast c :: 32 word)"
  show ?case
  proof (cases "low_bytes code = [0, 0, 1]")
    case True
    then have shift: "push_bit 8 code = (0x100 :: 32 word)"
      by (simp add: prefix_shift)
    have "mpegps_probe_loop score_max code (c # rest) =
        (if is_ps_code c then score_max - 1 else 0)"
      using prefix_test [of code c] True ps_test [OF shift, of c]
      by (simp add: Let_def)
    with True show ?thesis by simp
  next
    case False
    then have "mpegps_probe_loop score_max code (c # rest) = mpegps_probe_loop score_max ?code rest"
      using prefix_test [of code c] by (simp add: Let_def)
    also have "\<dots> = (case first_start_code (low_bytes ?code @ rest) of
        None \<Rightarrow> 0
      | Some x \<Rightarrow> if is_ps_code x then score_max - 1 else 0)"
      by (rule Cons.IH)
    also have "first_start_code (low_bytes ?code @ rest) = first_start_code (low_bytes code @ c # rest)"
      unfolding shifted_low_bytes using False by (auto simp add: low_bytes_def)
    finally show ?thesis .
  qed
qed

lemma first_start_code_initial:
  "first_start_code (0 # 0 # 0xff # bs) = first_start_code bs"
proof (cases bs)
  case Nil
  then show ?thesis by simp
next
  case (Cons x xs)
  note 1 = this
  show ?thesis
  proof (cases xs)
    case Nil
    with 1 show ?thesis by simp
  next
    case (Cons y ys)
    note 2 = this
    show ?thesis
    proof (cases ys)
      case Nil
      with 1 2 show ?thesis by simp
    next
      case (Cons z zs)
      with 1 2 show ?thesis by simp
    qed
  qed
qed

lemma probe_examples:
  "mpegps_probe 100 \<lparr>buf = [0xaa, 0xbb, 0x00, 0x00, 0x01, 0xba, 0x44]\<rparr> = 99"
  "mpegps_probe 100 \<lparr>buf = [0x00, 0x00, 0x01, 0xaa, 0x00, 0x00, 0x01, 0xba]\<rparr> = 0"
  "mpegps_probe 100 \<lparr>buf = [0x11, 0x22, 0x33]\<rparr> = 0"
  by (simp_all add: mpegps_probe_def)

text \<open>
  C6. For every buffer, \<^verbatim>\<open>mpegps_probe\<close> returns \<^verbatim>\<open>AVPROBE_SCORE_MAX - 1\<close> when the byte after
  the first occurrence of the prefix \<open>00 00 01\<close> makes a program-stream start code, 0
  when it makes any other code, and 0 when the buffer holds no such prefix followed by a
  byte.
\<close>

theorem mpegps_probe_first_start_code:
  "mpegps_probe score_max p =
     (case first_start_code (buf p) of
        None \<Rightarrow> 0
      | Some x \<Rightarrow> if is_ps_code x then score_max - 1 else 0)"
proof -
  have "low_bytes 0xff = [0, 0, 0xff]" by (simp add: low_bytes_def)
  then show ?thesis
    by (simp add: mpegps_probe_def probe_loop_window first_start_code_initial)
qed

end
